theory Spec2Isabelle
  imports Complex_Main "HOL-Library.Word" "HOL-Library.Signed_Division"
begin

section \<open>Data model of \<^verbatim>\<open>video_info.cpp\<close>\<close>

subsection \<open>The C++ scalar types\<close>

text \<open>
  A C++ \<^verbatim>\<open>double\<close> is an IEEE 754 binary64 value: a sign and a magnitude, an
  infinity with a sign, or a NaN with a sign. \<open>Finite s m\<close> has the sign bit \<open>s\<close>
  (\<open>True\<close> for negative, so that both zeros exist) and the magnitude \<open>m \<ge> 0\<close>. The
  sign bit of a NaN shows when the NaN is printed; its payload is not modelled.
\<close>

datatype double = Finite bool rat | Infinite bool | NaN bool

text \<open>A C++ \<^verbatim>\<open>int\<close> is a 32-bit two's complement integer, read with \<open>sint\<close>.\<close>

type_synonym cint = "32 word"

subsection \<open>The classes \<^verbatim>\<open>MediaFile\<close> and \<^verbatim>\<open>VideoFile\<close>\<close>

text \<open>
  The fields of the base class come first, as in the object; \<open>supportedFormats\<close>
  is the member that every constructor call initialises to the same four literals.
\<close>

record MediaFile =
  filename :: string
  duration :: double
  size :: double
  format :: string

record VideoFile = MediaFile +
  width :: cint
  height :: cint
  frameRate :: double
  videoCodec :: string
  supportedFormats :: "string list"

text \<open>The only \<^verbatim>\<open>throw\<close> of the program: \<^verbatim>\<open>std::invalid_argument\<close> with its message.\<close>

datatype exception = Invalid_argument string

fun what :: "exception \<Rightarrow> string" where
  "what (Invalid_argument msg) = msg"

section \<open>Arithmetic of \<^verbatim>\<open>double\<close>\<close>

subsection \<open>Rounding to binary64\<close>

text \<open>
  Every operation of the program on \<^verbatim>\<open>double\<close> returns the exact result rounded to the
  nearest representable value, ties to the even significand (the default rounding mode).
  \<open>rne\<close> rounds a rational to the nearest integer, ties to even.
\<close>

definition rne :: "rat \<Rightarrow> int" where
  "rne x = (let f = \<lfloor>x\<rfloor>; d = x - of_int f
            in if d < 1 / 2 then f
               else if 1 / 2 < d then f + 1
               else if even f then f else f + 1)"

text \<open>\<open>ilen b n\<close> is the number of digits of \<open>n > 0\<close> in base \<open>b\<close>.\<close>

function ilen :: "int \<Rightarrow> int \<Rightarrow> int" where
  "ilen b n = (if 1 < b \<and> 0 < n then ilen b (n div b) + 1 else 0)"
  by pat_completeness auto
termination
  by (relation "measure (\<lambda>(b, n). nat n)") (auto simp: int_div_less_self)

declare ilen.simps [simp del]

text \<open>
  \<open>ilog b x\<close> is \<open>\<lfloor>log\<^sub>b x\<rfloor>\<close> for a rational \<open>x > 0\<close>: the digit counts of numerator
  and denominator fix it up to one, and a comparison decides.
\<close>

definition ilog :: "int \<Rightarrow> rat \<Rightarrow> int" where
  "ilog b x = (let (p, q) = quotient_of x;
                   k = ilen b p - ilen b q
               in if of_int b powi k \<le> x then k else k - 1)"

text \<open>
  A binary64 magnitude has a 53-bit significand \<open>n\<close> and a binary exponent \<open>e\<close> from
  \<open>-1022\<close> (below it the spacing stays \<open>2\<^sup>-\<^sup>1\<^sup>0\<^sup>7\<^sup>4\<close>: the subnormal numbers)
  to \<open>1023\<close>. \<open>round_double m\<close> is the representable magnitude nearest to \<open>m \<ge> 0\<close>, or
  \<open>None\<close> when the rounded result reaches \<open>2\<^sup>1\<^sup>0\<^sup>2\<^sup>4\<close> (overflow: the operation returns
  an infinity).
\<close>

definition round_double :: "rat \<Rightarrow> rat option" where
  "round_double m =
     (if m = 0 then Some 0
      else let e = max (ilog 2 m) (- 1022);
               q = 2 powi (e - 52);
               n = rne (m / q)
           in if of_int n * q < 2 ^ 1024 then Some (of_int n * q) else None)"

definition mk_double :: "bool \<Rightarrow> rat \<Rightarrow> double" where
  "mk_double s m = (case round_double m of Some r \<Rightarrow> Finite s r | None \<Rightarrow> Infinite s)"

text \<open>The values of type \<^verbatim>\<open>double\<close>: a magnitude that rounding leaves alone.\<close>

fun is_double :: "double \<Rightarrow> bool" where
  "is_double (Finite s m) = (0 \<le> m \<and> round_double m = Some m)"
| "is_double (Infinite s) = True"
| "is_double (NaN s) = True"

text \<open>The conversion of an \<^verbatim>\<open>int\<close> (a literal such as \<^verbatim>\<open>8\<close> or \<^verbatim>\<open>1000000\<close>) to \<^verbatim>\<open>double\<close>.\<close>

definition double_of_int :: "int \<Rightarrow> double" where
  "double_of_int i = mk_double (i < 0) (of_int \<bar>i\<bar>)"

subsection \<open>Multiplication, division, comparison\<close>

text \<open>
  An operation on a NaN returns that NaN (the first one when both operands are). An
  invalid operation (zero times infinity, zero by zero, infinity by infinity) returns
  the default NaN of the x86-64 target, the one with the sign bit set.
\<close>

definition default_nan :: double where
  "default_nan = NaN True"

fun dmul :: "double \<Rightarrow> double \<Rightarrow> double" where
  "dmul (NaN s) y = NaN s"
| "dmul x (NaN t) = NaN t"
| "dmul (Infinite s) (Infinite t) = Infinite (s \<noteq> t)"
| "dmul (Infinite s) (Finite t n) = (if n = 0 then default_nan else Infinite (s \<noteq> t))"
| "dmul (Finite s m) (Infinite t) = (if m = 0 then default_nan else Infinite (s \<noteq> t))"
| "dmul (Finite s m) (Finite t n) = mk_double (s \<noteq> t) (m * n)"

fun ddiv :: "double \<Rightarrow> double \<Rightarrow> double" where
  "ddiv (NaN s) y = NaN s"
| "ddiv x (NaN t) = NaN t"
| "ddiv (Infinite s) (Infinite t) = default_nan"
| "ddiv (Infinite s) (Finite t n) = Infinite (s \<noteq> t)"
| "ddiv (Finite s m) (Infinite t) = Finite (s \<noteq> t) 0"
| "ddiv (Finite s m) (Finite t n) =
     (if n = 0 then (if m = 0 then default_nan else Infinite (s \<noteq> t))
      else mk_double (s \<noteq> t) (m / n))"

definition signed :: "bool \<Rightarrow> rat \<Rightarrow> rat" where
  "signed s m = (if s then - m else m)"

text \<open>\<open>dle x y\<close> is \<^verbatim>\<open>x <= y\<close>: false when either side is a NaN, and \<open>-0 <= +0 <= -0\<close>.\<close>

fun dle :: "double \<Rightarrow> double \<Rightarrow> bool" where
  "dle (NaN s) y = False"
| "dle x (NaN t) = False"
| "dle (Finite s m) (Finite t n) = (signed s m \<le> signed t n)"
| "dle (Finite s m) (Infinite t) = (\<not> t)"
| "dle (Infinite s) (Finite t n) = s"
| "dle (Infinite s) (Infinite t) = (s \<or> \<not> t)"

definition dge :: "double \<Rightarrow> double \<Rightarrow> bool" where
  "dge x y = dle y x"

subsection \<open>Conversion to \<^verbatim>\<open>int\<close>\<close>

text \<open>
  \<open>truncated x\<close> is \<open>x\<close> without its fractional part, when \<open>x\<close> is finite.
  \<^verbatim>\<open>static_cast<int>(x)\<close> is this value when it is representable in \<^verbatim>\<open>int\<close>. When it is
  not (also for an infinity or a NaN) the C++ standard defines no result; the conversion
  instruction of the x86-64 target then returns the smallest \<^verbatim>\<open>int\<close>, \<open>-2\<^sup>3\<^sup>1\<close>, and so
  does \<open>static_cast_int\<close>.
\<close>

definition truncated :: "double \<Rightarrow> int option" where
  "truncated x =
     (case x of
        Finite s m \<Rightarrow> Some (if s then - \<lfloor>m\<rfloor> else \<lfloor>m\<rfloor>)
      | Infinite s \<Rightarrow> None
      | NaN s \<Rightarrow> None)"

definition int_min :: cint where
  "int_min = word_of_int (- (2 ^ 31))"

definition static_cast_int :: "double \<Rightarrow> cint" where
  "static_cast_int x =
     (case truncated x of
        Some t \<Rightarrow> if - (2 ^ 31) \<le> t \<and> t < 2 ^ 31 then word_of_int t else int_min
      | None \<Rightarrow> int_min)"

section \<open>Text forms of numbers\<close>

subsection \<open>Integers\<close>

definition digit_char :: "int \<Rightarrow> char" where
  "digit_char d = ''0123456789'' ! nat d"

function dec_digits :: "int \<Rightarrow> string" where
  "dec_digits n =
     (if n < 10 then [digit_char n]
      else dec_digits (n div 10) @ [digit_char (n mod 10)])"
  by pat_completeness auto
termination
  by (relation "measure nat") auto

declare dec_digits.simps [simp del]

definition string_of_int :: "int \<Rightarrow> string" where
  "string_of_int i = (if i < 0 then CHR ''-'' # dec_digits (- i) else dec_digits i)"

definition pad_left :: "nat \<Rightarrow> char \<Rightarrow> string \<Rightarrow> string" where
  "pad_left w c s = replicate (w - length s) c @ s"

subsection \<open>Fixed notation: the conversion \<^verbatim>\<open>%.pf\<close>\<close>

text \<open>
  The magnitude is rounded to \<open>p\<close> decimals (to nearest, ties to even, on the exact binary
  value) and written with all its \<open>p\<close> decimals.
\<close>

definition sign_text :: "bool \<Rightarrow> string" where
  "sign_text s = (if s then ''-'' else [])"

definition fixed_digits :: "nat \<Rightarrow> rat \<Rightarrow> string" where
  "fixed_digits p m =
     (let n = rne (m * 10 ^ p)
      in dec_digits (n div 10 ^ p) @
         (if p = 0 then [] else CHR ''.'' # pad_left p (CHR ''0'') (dec_digits (n mod 10 ^ p))))"

fun format_fixed :: "nat \<Rightarrow> double \<Rightarrow> string" where
  "format_fixed p (Finite s m) = sign_text s @ fixed_digits p m"
| "format_fixed p (Infinite s) = sign_text s @ ''inf''"
| "format_fixed p (NaN s) = sign_text s @ ''nan''"

text \<open>\<^verbatim>\<open>std::to_string(double)\<close> is \<^verbatim>\<open>sprintf\<close> with \<^verbatim>\<open>%f\<close>: six decimals.\<close>

definition to_string :: "double \<Rightarrow> string" where
  "to_string x = format_fixed 6 x"

subsection \<open>General notation: the conversion \<^verbatim>\<open>%.Pg\<close>\<close>

text \<open>
  The magnitude is rounded to \<open>P\<close> significant digits \<open>n\<close> with decimal exponent \<open>X\<close>.
  For \<open>-4 \<le> X < P\<close> the digits are written in fixed notation, otherwise as
  \<^verbatim>\<open>d.ddde\<plusminus>XX\<close>; trailing zeros of the fraction are dropped, and the point with them
  when no fraction is left.
\<close>

definition strip_zeros :: "string \<Rightarrow> string" where
  "strip_zeros s = rev (dropWhile (\<lambda>c. c = CHR ''0'') (rev s))"

definition with_fraction :: "string \<Rightarrow> string \<Rightarrow> string" where
  "with_fraction ip fr = ip @ (if strip_zeros fr = [] then [] else CHR ''.'' # strip_zeros fr)"

definition general_digits :: "nat \<Rightarrow> rat \<Rightarrow> string" where
  "general_digits P m =
     (if m = 0 then ''0''
      else let e0 = ilog 10 m;
               n0 = rne (m / 10 powi (e0 - (int P - 1)));
               X = (if 10 ^ P \<le> n0 then e0 + 1 else e0);
               n = (if 10 ^ P \<le> n0 then n0 div 10 else n0)
           in if - 4 \<le> X \<and> X < int P
              then let k = nat (int P - 1 - X)
                   in with_fraction (dec_digits (n div 10 ^ k))
                        (pad_left k (CHR ''0'') (dec_digits (n mod 10 ^ k)))
              else with_fraction (dec_digits (n div 10 ^ (P - 1)))
                        (pad_left (P - 1) (CHR ''0'') (dec_digits (n mod 10 ^ (P - 1))))
                   @ ''e'' @ (if X < 0 then ''-'' else ''+'')
                   @ pad_left 2 (CHR ''0'') (dec_digits \<bar>X\<bar>))"

fun format_general :: "nat \<Rightarrow> double \<Rightarrow> string" where
  "format_general P (Finite s m) = sign_text s @ general_digits P m"
| "format_general P (Infinite s) = sign_text s @ ''inf''"
| "format_general P (NaN s) = sign_text s @ ''nan''"

section \<open>Format validation and construction\<close>

text \<open>
  \<^verbatim>\<open>std::find(begin, end, format) != end\<close>: a linear search with \<^verbatim>\<open>==\<close> on
  \<^verbatim>\<open>std::string\<close>, which compares the characters one by one.
\<close>

definition isValidFormat :: "string \<Rightarrow> string list \<Rightarrow> bool" where
  "isValidFormat fmt validFormats = (List.find (\<lambda>f. f = fmt) validFormats \<noteq> None)"

definition default_supportedFormats :: "string list" where
  "default_supportedFormats = [''.mp4'', ''.mkv'', ''.avi'', ''.mov'']"

definition unsupported_message :: string where
  "unsupported_message = ''Unsupported video format. Supported formats: mp4, mkv, avi, mov''"

definition validateFormat :: "VideoFile \<Rightarrow> exception + unit" where
  "validateFormat v =
     (if \<not> isValidFormat (format v) (supportedFormats v)
      then Inl (Invalid_argument unsupported_message)
      else Inr ())"

text \<open>
  The constructor stores its eight arguments unchanged, then calls \<open>validateFormat\<close>;
  an exception leaving the constructor means that no object exists.
\<close>

definition VideoFile_new ::
  "string \<Rightarrow> double \<Rightarrow> double \<Rightarrow> string \<Rightarrow> cint \<Rightarrow> cint \<Rightarrow> double \<Rightarrow> string
     \<Rightarrow> exception + VideoFile" where
  "VideoFile_new name dur sz fmt w h fps codec =
     (let v = \<lparr> filename = name, duration = dur, size = sz, format = fmt,
                 width = w, height = h, frameRate = fps, videoCodec = codec,
                 supportedFormats = default_supportedFormats \<rparr>
      in case validateFormat v of
           Inl e \<Rightarrow> Inl e
         | Inr _ \<Rightarrow> Inr v)"

section \<open>Derived values\<close>

subsection \<open>\<^verbatim>\<open>MediaFile::formatSize\<close>\<close>

definition KB :: double where "KB = double_of_int 1024"
definition MB :: double where "MB = dmul KB (double_of_int 1024)"
definition GB :: double where "GB = dmul MB (double_of_int 1024)"

definition formatSize :: "double \<Rightarrow> string" where
  "formatSize size_in_bytes =
     (if dge size_in_bytes GB then to_string (ddiv size_in_bytes GB) @ '' GB''
      else if dge size_in_bytes MB then to_string (ddiv size_in_bytes MB) @ '' MB''
      else if dge size_in_bytes KB then to_string (ddiv size_in_bytes KB) @ '' KB''
      else to_string size_in_bytes @ '' bytes'')"

subsection \<open>\<^verbatim>\<open>VideoFile::calculateBitrate\<close>\<close>

definition calculateBitrate :: "VideoFile \<Rightarrow> double" where
  "calculateBitrate v =
     ddiv (dmul (size v) (double_of_int 8)) (dmul (duration v) (double_of_int 1000000))"

subsection \<open>\<^verbatim>\<open>VideoFile::getResolutionName\<close>\<close>

definition getResolutionName :: "VideoFile \<Rightarrow> string" where
  "getResolutionName v =
     (if 3840 \<le> sint (width v) \<and> 2160 \<le> sint (height v) then ''4K''
      else if 1920 \<le> sint (width v) \<and> 1080 \<le> sint (height v) then ''1080p''
      else if 1280 \<le> sint (width v) \<and> 720 \<le> sint (height v) then ''720p''
      else ''SD'')"


section \<open>The output stream\<close>

text \<open>
  What the program uses of a \<^verbatim>\<open>std::ostream\<close>: the characters written so far, the
  fill character, the field width of the next insertion, and the notation and precision
  of floating-point insertions. \<^verbatim>\<open>std::cout\<close> starts as \<open>cout_init\<close>.
\<close>

datatype floatfield = Float_default | Float_fixed

record ostream =
  os_text :: string
  os_fill :: char
  os_width :: nat
  os_precision :: nat
  os_floatfield :: floatfield

definition cout_init :: ostream where
  "cout_init = \<lparr> os_text = [], os_fill = CHR '' '', os_width = 0, os_precision = 6,
                 os_floatfield = Float_default \<rparr>"

text \<open>
  Every formatted insertion pads its text on the left with the fill character up to the
  field width, and resets the width to 0.
\<close>

definition put :: "string \<Rightarrow> ostream \<Rightarrow> ostream" where
  "put s os = os\<lparr> os_text := os_text os @ pad_left (os_width os) (os_fill os) s,
                  os_width := 0 \<rparr>"

definition put_int :: "int \<Rightarrow> ostream \<Rightarrow> ostream" where
  "put_int i os = put (string_of_int i) os"

definition format_double :: "floatfield \<Rightarrow> nat \<Rightarrow> double \<Rightarrow> string" where
  "format_double ff p x =
     (case ff of
        Float_fixed \<Rightarrow> format_fixed p x
      | Float_default \<Rightarrow> format_general (if p = 0 then 1 else p) x)"

definition put_double :: "double \<Rightarrow> ostream \<Rightarrow> ostream" where
  "put_double x os = put (format_double (os_floatfield os) (os_precision os) x) os"

definition setfill :: "char \<Rightarrow> ostream \<Rightarrow> ostream" where
  "setfill c os = os\<lparr> os_fill := c \<rparr>"

definition setw :: "nat \<Rightarrow> ostream \<Rightarrow> ostream" where
  "setw n os = os\<lparr> os_width := n \<rparr>"

definition fixed :: "ostream \<Rightarrow> ostream" where
  "fixed os = os\<lparr> os_floatfield := Float_fixed \<rparr>"

definition setprecision :: "nat \<Rightarrow> ostream \<Rightarrow> ostream" where
  "setprecision n os = os\<lparr> os_precision := n \<rparr>"

text \<open>A chain \<^verbatim>\<open>cout << a << b << ...\<close> applies its insertions from left to right.\<close>

definition chain :: "(ostream \<Rightarrow> ostream) list \<Rightarrow> ostream \<Rightarrow> ostream" where
  "chain ops os = fold (\<lambda>f s. f s) ops os"

section \<open>\<^verbatim>\<open>VideoFile::displayInfo\<close>\<close>

text \<open>
  \<^verbatim>\<open>hours\<close>, \<^verbatim>\<open>minutes\<close> and \<^verbatim>\<open>seconds\<close> are quotients and remainders of an
  \<^verbatim>\<open>int\<close> by 3600 and 60, which cannot overflow; C++ division truncates towards zero
  (\<open>sdiv\<close>, \<open>smod\<close>).
\<close>

definition displayInfo :: "VideoFile \<Rightarrow> ostream \<Rightarrow> ostream" where
  "displayInfo v cout =
     (let totalSeconds = sint (static_cast_int (duration v));
          hours = totalSeconds sdiv 3600;
          minutes = (totalSeconds smod 3600) sdiv 60;
          seconds = totalSeconds smod 60
      in chain
           [put ''\<newline>=== Video Information ===\<newline>'',
            put ''Filename: '', put (filename v), put (format v), put ''\<newline>'',
            put ''Duration: '',
            put_int hours, put '':'',
            setfill (CHR ''0''), setw 2, put_int minutes, put '':'',
            setfill (CHR ''0''), setw 2, put_int seconds, put ''\<newline>'',
            put ''Size: '', put (formatSize (size v)), put ''\<newline>'',
            put ''Resolution: '', put_int (sint (width v)), put ''x'',
            put_int (sint (height v)),
            put '' ('', put (getResolutionName v), put '')\<newline>'',
            put ''Frame Rate: '', put_double (frameRate v), put '' fps\<newline>'',
            put ''Video Codec: '', put (videoCodec v), put ''\<newline>'',
            put ''Bitrate: '', fixed, setprecision 2,
            put_double (calculateBitrate v), put '' Mbps\<newline>'',
            put ''=====================\<newline>'']
           cout)"

section \<open>The input stream\<close>

text \<open>
  Standard input is the sequence of characters that have not been read yet, followed by
  the end of the file, together with the two state bits that the program can observe:
  \<^verbatim>\<open>eofbit\<close> and \<^verbatim>\<open>failbit\<close>.
\<close>

record istream =
  is_buf :: string
  is_eof :: bool
  is_fail :: bool

definition cin_init :: "string \<Rightarrow> istream" where
  "cin_init s = \<lparr> is_buf = s, is_eof = False, is_fail = False \<rparr>"

definition good :: "istream \<Rightarrow> bool" where
  "good cin = (\<not> is_eof cin \<and> \<not> is_fail cin)"

definition clear :: "istream \<Rightarrow> istream" where
  "clear cin = cin\<lparr> is_eof := False, is_fail := False \<rparr>"

text \<open>
  \<^verbatim>\<open>std::getline(cin, str)\<close>: on a stream that is not good it sets \<^verbatim>\<open>failbit\<close> and
  leaves \<open>str\<close> alone. Otherwise it moves the characters before the next newline into
  \<open>str\<close> and drops the newline; reaching the end of the file sets \<^verbatim>\<open>eofbit\<close>, and
  \<^verbatim>\<open>failbit\<close> too when nothing at all was extracted.
\<close>

definition getline :: "istream \<Rightarrow> string \<Rightarrow> string \<times> istream" where
  "getline cin str =
     (if \<not> good cin then (str, cin\<lparr> is_fail := True \<rparr>)
      else let line = takeWhile (\<lambda>c. c \<noteq> CHR ''\<newline>'') (is_buf cin)
           in case dropWhile (\<lambda>c. c \<noteq> CHR ''\<newline>'') (is_buf cin) of
                [] \<Rightarrow> (line, cin\<lparr> is_buf := [], is_eof := True, is_fail := (line = []) \<rparr>)
              | c # rest \<Rightarrow> (line, cin\<lparr> is_buf := rest \<rparr>))"

text \<open>
  \<^verbatim>\<open>cin.ignore(n, delim)\<close> discards characters until \<open>n\<close> of them are gone, or the end
  of the file is reached (which sets \<^verbatim>\<open>eofbit\<close>), or the delimiter has been discarded.
  \<^verbatim>\<open>cin.ignore()\<close> is \<open>ignore 1 None\<close>: no character is a delimiter.
\<close>

fun discard :: "nat \<Rightarrow> char option \<Rightarrow> string \<Rightarrow> string \<times> bool" where
  "discard 0 delim s = (s, False)"
| "discard (Suc n) delim [] = ([], True)"
| "discard (Suc n) delim (c # s) = (if delim = Some c then (s, False) else discard n delim s)"

definition ignore :: "nat \<Rightarrow> char option \<Rightarrow> istream \<Rightarrow> istream" where
  "ignore n delim cin =
     (if \<not> good cin then cin\<lparr> is_fail := True \<rparr>
      else case discard n delim (is_buf cin) of
             (rest, eof) \<Rightarrow> cin\<lparr> is_buf := rest, is_eof := eof \<rparr>)"

text \<open>
  \<^verbatim>\<open>cin >> x\<close> for a number. On a stream that is not good it sets \<^verbatim>\<open>failbit\<close>.
  Otherwise it skips white space (reaching the end of the file there sets both bits) and
  hands the rest to the number parser \<open>num_get\<close>, which returns the number or \<open>None\<close>
  and the characters it has left. A failed parse sets \<^verbatim>\<open>failbit\<close>; a parse that
  used up the input sets \<^verbatim>\<open>eofbit\<close>. The result is \<open>Some x\<close> exactly when the
  extraction succeeded: the program reads the variable only then.
\<close>

definition isspace :: "char \<Rightarrow> bool" where
  "isspace c = (c \<in> set [CHR '' '', CHR 0x09, CHR ''\<newline>'', CHR 0x0B, CHR 0x0C, CHR 0x0D])"

definition extraction :: "(string \<Rightarrow> 'a option \<times> string) \<Rightarrow> istream \<Rightarrow> 'a option \<times> istream" where
  "extraction num_get cin =
     (if \<not> good cin then (None, cin\<lparr> is_fail := True \<rparr>)
      else let s = dropWhile isspace (is_buf cin)
           in if s = [] then (None, cin\<lparr> is_buf := [], is_eof := True, is_fail := True \<rparr>)
              else case num_get s of
                     (Some x, rest) \<Rightarrow> (Some x, cin\<lparr> is_buf := rest, is_eof := (rest = []) \<rparr>)
                   | (None, rest) \<Rightarrow>
                       (None, cin\<lparr> is_buf := rest, is_eof := (rest = []), is_fail := True \<rparr>))"

subsection \<open>The number parsers\<close>

text \<open>
  The parsers of the standard library in the classic locale, for decimal input. A
  \<^verbatim>\<open>double\<close> is an optional sign, digits with at most one decimal point, and an optional
  exponent (\<^verbatim>\<open>e\<close> or \<^verbatim>\<open>E\<close>, accepted only after a digit, with an optional sign);
  the characters of this shape are consumed, and the parse succeeds when they contain a
  mantissa digit, the exponent (if any) has a digit, and the value rounds to a finite
  \<^verbatim>\<open>double\<close>. An \<^verbatim>\<open>int\<close> is an optional sign and digits, and must fit in 32 bits.
\<close>

definition is_digit :: "char \<Rightarrow> bool" where
  "is_digit c = (c \<in> set ''0123456789'')"

definition digits_val :: "string \<Rightarrow> int" where
  "digits_val ds = foldl (\<lambda>a c. 10 * a + (of_char c - 48)) 0 ds"

definition take_sign :: "string \<Rightarrow> string \<times> string" where
  "take_sign s =
     (case s of
        [] \<Rightarrow> ([], s)
      | c # t \<Rightarrow> if c = CHR ''+'' \<or> c = CHR ''-'' then ([c], t) else ([], s))"

text \<open>The number that the digits \<open>ip.fp\<close> with the decimal exponent \<open>ex\<close> denote.\<close>

definition decimal_value :: "string \<Rightarrow> string \<Rightarrow> int \<Rightarrow> rat" where
  "decimal_value ip fp ex = of_int (digits_val (ip @ fp)) * 10 powi (ex - int (length fp))"

definition num_get_double :: "string \<Rightarrow> double option \<times> string" where
  "num_get_double s =
     (let (sgn, s1) = take_sign s;
          ip = takeWhile is_digit s1;
          s2 = dropWhile is_digit s1;
          point = (s2 \<noteq> [] \<and> hd s2 = CHR ''.'');
          fp = (if point then takeWhile is_digit (tl s2) else []);
          s3 = (if point then dropWhile is_digit (tl s2) else s2);
          mantissa = (ip \<noteq> [] \<or> fp \<noteq> []);
          sci = (mantissa \<and> s3 \<noteq> [] \<and> (hd s3 = CHR ''e'' \<or> hd s3 = CHR ''E''));
          (esgn, s4) = (if sci then take_sign (tl s3) else ([], s3));
          ed = (if sci then takeWhile is_digit s4 else []);
          s5 = (if sci then dropWhile is_digit s4 else s3);
          ex = (if esgn = ''-'' then - digits_val ed else digits_val ed);
          m = decimal_value ip fp ex
      in if mantissa \<and> (if sci then ed \<noteq> [] else True)
         then (map_option (Finite (sgn = ''-'')) (round_double m), s5)
         else (None, s5))"

definition num_get_int :: "string \<Rightarrow> cint option \<times> string" where
  "num_get_int s =
     (let (sgn, s1) = take_sign s;
          ds = takeWhile is_digit s1;
          rest = dropWhile is_digit s1;
          i = (if sgn = ''-'' then - digits_val ds else digits_val ds)
      in if ds \<noteq> [] \<and> - (2 ^ 31) \<le> i \<and> i < 2 ^ 31
         then (Some (word_of_int i), rest)
         else (None, rest))"

section \<open>The program\<close>

subsection \<open>The retry loop of a numeric field\<close>

text \<open>
  \<^verbatim>\<open>while (!(cin >> x) || x <= 0) { cout << msg; cin.clear(); cin.ignore(10000, '\n'); }\<close>
  The loop has no bound: on an input that never offers an acceptable value it runs
  forever, which is the result \<open>None\<close>.
\<close>

partial_function (option) read_positive ::
  "(istream \<Rightarrow> 'a option \<times> istream) \<Rightarrow> ('a \<Rightarrow> bool) \<Rightarrow> string \<Rightarrow> istream \<times> ostream
     \<Rightarrow> ('a \<times> istream \<times> ostream) option" where
  "read_positive ext nonpos msg st =
     (case ext (fst st) of
        (Some x, cin) \<Rightarrow>
          if nonpos x
          then read_positive ext nonpos msg
                 (ignore 10000 (Some (CHR ''\<newline>'')) (clear cin), put msg (snd st))
          else Some (x, cin, snd st)
      | (None, cin) \<Rightarrow>
          read_positive ext nonpos msg
            (ignore 10000 (Some (CHR ''\<newline>'')) (clear cin), put msg (snd st)))"

declare read_positive.simps [code]

definition double_nonpos :: "double \<Rightarrow> bool" where
  "double_nonpos x = dle x (double_of_int 0)"

definition int_nonpos :: "cint \<Rightarrow> bool" where
  "int_nonpos i = (sint i \<le> 0)"

subsection \<open>\<^verbatim>\<open>main\<close>\<close>

text \<open>The eight values that the first part of \<^verbatim>\<open>main\<close> reads, in the order of the constructor call.\<close>

type_synonym inputs = "string \<times> double \<times> double \<times> string \<times> cint \<times> cint \<times> double \<times> string"

definition collect :: "istream \<Rightarrow> ostream \<Rightarrow> (inputs \<times> istream \<times> ostream) option" where
  "collect cin0 cout0 =
     (let cout = put ''Enter video information:\<newline>'' cout0;
          cout = put ''Filename (without extension): '' cout;
          (name, cin) = getline cin0 [];
          cout = put ''Format (e.g., .mp4, .mkv): '' cout;
          (fmt, cin) = getline cin [];
          cout = put ''Duration (in seconds): '' cout
      in case read_positive (extraction num_get_double) double_nonpos
                ''Please enter a valid duration: '' (cin, cout) of
           None \<Rightarrow> None
         | Some (dur, cin, cout) \<Rightarrow>
      (case read_positive (extraction num_get_double) double_nonpos
                ''Please enter a valid size: '' (cin, put ''Size (in bytes): '' cout) of
           None \<Rightarrow> None
         | Some (sz, cin, cout) \<Rightarrow>
      (case read_positive (extraction num_get_int) int_nonpos
                ''Please enter a valid width: '' (cin, put ''Width (pixels): '' cout) of
           None \<Rightarrow> None
         | Some (w, cin, cout) \<Rightarrow>
      (case read_positive (extraction num_get_int) int_nonpos
                ''Please enter a valid height: '' (cin, put ''Height (pixels): '' cout) of
           None \<Rightarrow> None
         | Some (h, cin, cout) \<Rightarrow>
      (case read_positive (extraction num_get_double) double_nonpos
                ''Please enter a valid frame rate: '' (cin, put ''Frame Rate (fps): '' cout) of
           None \<Rightarrow> None
         | Some (fps, cin, cout) \<Rightarrow>
             (let cin = ignore 1 None cin;
                  cout = put ''Video Codec (e.g., H.264, H.265): '' cout;
                  (codec, cin) = getline cin []
              in Some ((name, dur, sz, fmt, w, h, fps, codec), cin, cout)))))))"

text \<open>
  The outcome of a run that ends: the exit status, standard output and standard error.
  The constructor's exception is caught at the end of \<^verbatim>\<open>main\<close>.
\<close>

definition main :: "string \<Rightarrow> (int \<times> ostream \<times> string) option" where
  "main stdin =
     (case collect (cin_init stdin) cout_init of
        None \<Rightarrow> None
      | Some ((name, dur, sz, fmt, w, h, fps, codec), cin, cout) \<Rightarrow>
          (case VideoFile_new name dur sz fmt w h fps codec of
             Inl e \<Rightarrow> Some (1, cout, ''Error: '' @ what e @ ''\<newline>'')
           | Inr video \<Rightarrow> Some (0, displayInfo video cout, [])))"

section \<open>Reference forms used in the properties\<close>

text \<open>
  The duration as the specification words it: \<^verbatim>\<open>H:MM:SS\<close> from a whole number of
  seconds \<open>t \<ge> 0\<close>, the hours as they are, the minutes and the seconds as exactly two
  digits.
\<close>

definition two_digits :: "int \<Rightarrow> string" where
  "two_digits k = [digit_char (k div 10), digit_char (k mod 10)]"

definition hms :: "int \<Rightarrow> string" where
  "hms t = dec_digits (t div 3600) @ '':'' @ two_digits (t mod 3600 div 60)
             @ '':'' @ two_digits (t mod 60)"

text \<open>
  The bitrate display as the specification words it: the value cut off (not rounded)
  after two decimals.
\<close>

definition truncated_2dp :: "double \<Rightarrow> string" where
  "truncated_2dp x =
     (case x of
        Finite s m \<Rightarrow> sign_text s @ dec_digits (\<lfloor>m * 100\<rfloor> div 100) @ ''.''
                        @ two_digits (\<lfloor>m * 100\<rfloor> mod 100)
      | Infinite s \<Rightarrow> sign_text s @ ''inf''
      | NaN s \<Rightarrow> sign_text s @ ''nan'')"

text \<open>
  The report of \<open>displayInfo\<close> around its duration line: what precedes the line, and what
  follows it on a stream whose floating-point notation is \<open>ff\<close> with precision \<open>p\<close>.
\<close>

definition report_head :: "VideoFile \<Rightarrow> string" where
  "report_head v =
     ''\<newline>=== Video Information ===\<newline>''
     @ ''Filename: '' @ filename v @ format v @ ''\<newline>''"

definition report_tail :: "floatfield \<Rightarrow> nat \<Rightarrow> VideoFile \<Rightarrow> string" where
  "report_tail ff p v =
     ''Size: '' @ formatSize (size v) @ ''\<newline>''
     @ ''Resolution: '' @ string_of_int (sint (width v)) @ ''x''
        @ string_of_int (sint (height v)) @ '' ('' @ getResolutionName v @ '')\<newline>''
     @ ''Frame Rate: '' @ format_double ff p (frameRate v) @ '' fps\<newline>''
     @ ''Video Codec: '' @ videoCodec v @ ''\<newline>''
     @ ''Bitrate: '' @ format_fixed 2 (calculateBitrate v) @ '' Mbps\<newline>''
     @ ''=====================\<newline>''"

text \<open>
  The interactive session as the specification lists it: the banner and the eight
  prompts, each numeric prompt followed by its own retry message as many times as that
  field was refused.
\<close>

definition prompts :: "nat \<Rightarrow> nat \<Rightarrow> nat \<Rightarrow> nat \<Rightarrow> nat \<Rightarrow> string" where
  "prompts k1 k2 k3 k4 k5 =
     ''Enter video information:\<newline>''
     @ ''Filename (without extension): ''
     @ ''Format (e.g., .mp4, .mkv): ''
     @ ''Duration (in seconds): '' @ concat (replicate k1 ''Please enter a valid duration: '')
     @ ''Size (in bytes): '' @ concat (replicate k2 ''Please enter a valid size: '')
     @ ''Width (pixels): '' @ concat (replicate k3 ''Please enter a valid width: '')
     @ ''Height (pixels): '' @ concat (replicate k4 ''Please enter a valid height: '')
     @ ''Frame Rate (fps): '' @ concat (replicate k5 ''Please enter a valid frame rate: '')
     @ ''Video Codec (e.g., H.264, H.265): ''"

text \<open>
  Discarding a line as the specification words it: everything up to and including the
  next line boundary, however far away it is.
\<close>

definition rest_of_line_discarded :: "string \<Rightarrow> string" where
  "rest_of_line_discarded s = drop 1 (dropWhile (\<lambda>c. c \<noteq> CHR ''\<newline>'') s)"

text \<open>
  The end-to-end scenario of the specification: \<^verbatim>\<open>movie\<close>, \<^verbatim>\<open>.mp4\<close>, 3661 seconds,
  104857600 bytes, 1920 by 1080, 29.97 frames per second, codec \<^verbatim>\<open>H.264\<close>.
\<close>

definition scenario :: VideoFile where
  "scenario = \<lparr> filename = ''movie'', duration = Finite False 3661,
                 size = Finite False 104857600, format = ''.mp4'',
                 width = 1920, height = 1080, frameRate = mk_double False (2997 / 100),
                 videoCodec = ''H.264'', supportedFormats = default_supportedFormats \<rparr>"

section \<open>Properties\<close>

subsection \<open>Helper facts\<close>

lemma isValidFormat_default:
  "isValidFormat fmt default_supportedFormats
     \<longleftrightarrow> fmt = ''.mp4'' \<or> fmt = ''.mkv'' \<or> fmt = ''.avi'' \<or> fmt = ''.mov''"
  unfolding isValidFormat_def default_supportedFormats_def
  by (auto simp: find_None_iff)

lemma isValidFormat_set: "isValidFormat fmt fs \<longleftrightarrow> fmt \<in> set fs"
  unfolding isValidFormat_def by (auto simp: find_None_iff)

lemma VideoFile_new_cases:
  "VideoFile_new name dur sz fmt w h fps codec =
     (if isValidFormat fmt default_supportedFormats
      then Inr \<lparr> filename = name, duration = dur, size = sz, format = fmt,
                 width = w, height = h, frameRate = fps, videoCodec = codec,
                 supportedFormats = default_supportedFormats \<rparr>
      else Inl (Invalid_argument unsupported_message))"
  by (simp add: VideoFile_new_def validateFormat_def Let_def)

subsection \<open>Digit counts, logarithms and exact rounding\<close>

lemma ilen_pos: "1 < b \<Longrightarrow> 0 < n \<Longrightarrow> 0 < ilen b n"
  by (induction b n rule: ilen.induct) (subst ilen.simps, simp add: pos_imp_zdiv_nonneg_iff
      add_pos_nonneg ilen.simps)

lemma ilen_bounds:
  "1 < b \<Longrightarrow> 0 < n \<Longrightarrow> b ^ nat (ilen b n - 1) \<le> n \<and> n < b ^ nat (ilen b n)"
proof (induction b n rule: ilen.induct)
  case (1 b n)
  show ?case
  proof (cases "n < b")
    case True
    then have "n div b = 0" using 1(3) by simp
    then have "ilen b n = 1"
      using 1(2,3) by (subst ilen.simps) (simp add: ilen.simps)
    then show ?thesis using True 1(3) by simp
  next
    case False
    then have d: "0 < n div b" using 1(2)
      by (simp add: pos_imp_zdiv_pos_iff)
    have l: "ilen b n = ilen b (n div b) + 1"
      using 1(2,3) by (subst ilen.simps) simp
    from 1(1) 1(2,3) d
    have ih: "b ^ nat (ilen b (n div b) - 1) \<le> n div b" "n div b < b ^ nat (ilen b (n div b))"
      by auto
    have p: "0 < ilen b (n div b)" using ilen_pos [OF 1(2) d] .
    then have e: "nat (ilen b (n div b)) = Suc (nat (ilen b (n div b) - 1))"
      by simp
    have "b ^ nat (ilen b (n div b)) = b * b ^ nat (ilen b (n div b) - 1)"
      by (subst e) simp
    also have "\<dots> \<le> b * (n div b)"
      using ih(1) 1(2) by simp
    also have "\<dots> \<le> n"
    proof -
      have e1: "b * (n div b) + n mod b = n" by (rule mult_div_mod_eq)
      have "0 \<le> n mod b" using 1(2) by simp
      then show ?thesis using e1 by linarith
    qed
    finally have lo: "b ^ nat (ilen b (n div b)) \<le> n" .
    have "n div b + 1 \<le> b ^ nat (ilen b (n div b))"
      using ih(2) by simp
    then have "b * (n div b + 1) \<le> b * b ^ nat (ilen b (n div b))"
      using 1(2) by simp
    moreover have "n < b * (n div b + 1)"
    proof -
      have e1: "b * (n div b) + n mod b = n" by (rule mult_div_mod_eq)
      have e2: "n mod b < b" using 1(2) by simp
      have "b * (n div b + 1) = b * (n div b) + b" by (simp add: distrib_left)
      then show ?thesis using e1 e2 by linarith
    qed
    ultimately have hi: "n < b ^ nat (ilen b (n div b) + 1)"
      using p by (simp add: nat_add_distrib)
    show ?thesis unfolding l using lo hi by simp
  qed
qed


lemma ilog_bounds:
  assumes "1 < b" "0 < x"
  shows "of_int b powi (ilog b x) \<le> x" "x < of_int b powi (ilog b x + 1)"
proof -
  obtain p q where pq: "quotient_of x = (p, q)" by (cases "quotient_of x")
  have q: "0 < q" by (rule quotient_of_denom_pos [OF pq])
  have x: "x = of_int p / of_int q" by (rule quotient_of_div [OF pq])
  have p: "0 < p" using assms(2) q x by (simp add: zero_less_divide_iff)
  let ?B = "of_int b :: rat"
  have B: "1 < ?B" "0 < ?B" "?B \<noteq> 0" using assms(1) by simp_all
  define lp lq where "lp = ilen b p" and "lq = ilen b q"
  have lp0: "0 < lp" and lq0: "0 < lq"
    unfolding lp_def lq_def using ilen_pos assms(1) p q by simp_all
  have pb: "b ^ nat (lp - 1) \<le> p" "p < b ^ nat lp"
    unfolding lp_def using ilen_bounds [OF assms(1) p] by simp_all
  have qb: "b ^ nat (lq - 1) \<le> q" "q < b ^ nat lq"
    unfolding lq_def using ilen_bounds [OF assms(1) q] by simp_all
  have P1: "?B powi (lp - 1) \<le> of_int p"
  proof -
    have "?B powi (lp - 1) = of_int (b ^ nat (lp - 1))"
      using lp0 by (simp add: power_int_def)
    also have "\<dots> \<le> of_int p" using pb(1) by (simp only: of_int_le_iff)
    finally show ?thesis .
  qed
  have P2: "of_int p < ?B powi lp"
  proof -
    have "(of_int p :: rat) < of_int (b ^ nat lp)" using pb(2) by (simp only: of_int_less_iff)
    also have "\<dots> = ?B powi lp" using lp0 by (simp add: power_int_def)
    finally show ?thesis .
  qed
  have Q1: "?B powi (lq - 1) \<le> of_int q"
  proof -
    have "?B powi (lq - 1) = of_int (b ^ nat (lq - 1))"
      using lq0 by (simp add: power_int_def)
    also have "\<dots> \<le> of_int q" using qb(1) by (simp only: of_int_le_iff)
    finally show ?thesis .
  qed
  have Q2: "of_int q < ?B powi lq"
  proof -
    have "(of_int q :: rat) < of_int (b ^ nat lq)" using qb(2) by (simp only: of_int_less_iff)
    also have "\<dots> = ?B powi lq" using lq0 by (simp add: power_int_def)
    finally show ?thesis .
  qed
  have qr: "(0::rat) < of_int q" and pr: "(0::rat) < of_int p" using q p by simp_all
  have lo: "?B powi (lp - lq - 1) \<le> x"
  proof -
    have "?B powi (lp - lq - 1) = ?B powi (lp - 1) / ?B powi lq"
      using B(3) by (simp add: power_int_diff [symmetric] algebra_simps)
    also have "\<dots> \<le> of_int p / ?B powi lq"
      using P1 B(2) by (simp add: divide_right_mono)
    also have "\<dots> \<le> of_int p / of_int q"
      using Q2 qr pr by (simp add: frac_le)
    finally show ?thesis by (simp add: x)
  qed
  have hi: "x < ?B powi (lp - lq + 1)"
  proof -
    have "x = of_int p / of_int q" by (rule x)
    also have "\<dots> < ?B powi lp / of_int q"
      using P2 qr by (simp add: divide_strict_right_mono)
    also have "\<dots> \<le> ?B powi lp / ?B powi (lq - 1)"
      using Q1 B(2) by (simp add: frac_le)
    also have "\<dots> = ?B powi (lp - lq + 1)"
      using B(3) by (simp add: power_int_diff [symmetric] algebra_simps)
    finally show ?thesis .
  qed
  have il: "ilog b x = (if ?B powi (lp - lq) \<le> x then lp - lq else lp - lq - 1)"
    by (simp add: ilog_def pq lp_def lq_def Let_def)
  show "of_int b powi (ilog b x) \<le> x"
    unfolding il using lo by simp
  show "x < of_int b powi (ilog b x + 1)"
    unfolding il using hi by (simp add: not_le)
qed

lemma ilog_unique:
  assumes "1 < b" "of_int b powi e \<le> x" "x < of_int b powi (e + 1)"
  shows "ilog b x = e"
proof -
  let ?B = "of_int b :: rat"
  have B: "1 < ?B" using assms(1) by simp
  have "0 < ?B powi e" using B by simp
  then have x: "0 < x" using assms(2) by simp
  note bd = ilog_bounds [OF assms(1) x]
  have "?B powi e < ?B powi (ilog b x + 1)"
    using assms(2) bd(2) by simp
  then have a: "e < ilog b x + 1"
    using power_int_increasing [of "ilog b x + 1" e ?B] B by (cases "e < ilog b x + 1") auto
  have "?B powi (ilog b x) < ?B powi (e + 1)"
    using assms(3) bd(1) by simp
  then have b: "ilog b x < e + 1"
    using power_int_increasing [of "e + 1" "ilog b x" ?B] B by (cases "ilog b x < e + 1") auto
  from a b show ?thesis by simp
qed

lemma rne_of_int [simp]: "rne (of_int n) = n"
  by (simp add: rne_def Let_def)

subsection \<open>The overflow test of \<open>round_double\<close>\<close>

text \<open>
  The rounded magnitude stays below \<open>2\<^sup>1\<^sup>0\<^sup>2\<^sup>4\<close> exactly when the exponent is at most
  \<open>1023\<close> and the significand has not been rounded up to \<open>2\<^sup>5\<^sup>3\<close> at that exponent. This
  form of the test needs no large power, and is the one used for evaluation.
\<close>

lemma ilen_nonpos: "\<not> 0 < n \<Longrightarrow> ilen b n = 0"
  by (subst ilen.simps) simp

lemma rne_ge: "of_int k \<le> x \<Longrightarrow> k \<le> rne x"
proof -
  assume "of_int k \<le> x"
  then have "k \<le> \<lfloor>x\<rfloor>" by (simp add: le_floor_iff)
  moreover have "\<lfloor>x\<rfloor> \<le> rne x" by (simp add: rne_def Let_def)
  ultimately show ?thesis by simp
qed

lemma rne_le: "x \<le> of_int k \<Longrightarrow> rne x \<le> k"
proof (cases "x = of_int k")
  case True
  then show ?thesis by (simp add: rne_def Let_def)
next
  case False
  assume "x \<le> of_int k"
  with False have "x < of_int k" by simp
  then have "\<lfloor>x\<rfloor> < k" by (simp add: floor_less_iff)
  moreover have "rne x \<le> \<lfloor>x\<rfloor> + 1" by (simp add: rne_def Let_def)
  ultimately show ?thesis by simp
qed

lemma ilog_negative:
  assumes "x < 0"
  shows "ilog 2 x < 0"
proof -
  obtain p q where pq: "quotient_of x = (p, q)" by (cases "quotient_of x")
  have q: "0 < q" by (rule quotient_of_denom_pos [OF pq])
  have x: "x = of_int p / of_int q" by (rule quotient_of_div [OF pq])
  have p: "\<not> 0 < p"
  proof
    assume "0 < p"
    then have "0 < x" using q x by (simp add: zero_less_divide_iff)
    then show False using assms by simp
  qed
  have lp: "ilen 2 p = 0" by (rule ilen_nonpos [OF p])
  have lq: "0 < ilen 2 q" using ilen_pos [of 2 q] q by simp
  show ?thesis using lq by (simp add: ilog_def pq lp Let_def)
qed

lemma round_double_overflow:
  assumes m: "m \<noteq> 0"
  defines "e \<equiv> max (ilog 2 m) (- 1022)"
  defines "q \<equiv> 2 powi (e - 52)"
  defines "n \<equiv> rne (m / q)"
  shows "of_int n * q < 2 ^ 1024 \<longleftrightarrow> e < 1023 \<or> (e = 1023 \<and> n < 2 ^ 53)"
proof (cases "m < 0")
  case True
  have q0: "0 < q" by (simp add: q_def)
  have "m / q \<le> of_int 0" using True q0 by (simp add: divide_le_0_iff)
  then have "n \<le> 0" unfolding n_def by (rule rne_le)
  then have "of_int n * q \<le> 0" using q0 by (simp add: mult_le_0_iff)
  moreover have "(0::rat) < 2 ^ 1024" by (rule zero_less_power) simp
  ultimately have a: "of_int n * q < 2 ^ 1024" by (rule le_less_trans)
  have "ilog 2 m < 0" by (rule ilog_negative [OF True])
  then have b: "e < 1023" by (simp add: e_def)
  from a b show ?thesis by simp
next
  case False
  with m have mp: "0 < m" by simp
  have q0: "0 < q" by (simp add: q_def)
  define L where "L = ilog 2 m"
  have bd: "2 powi L \<le> m" "m < 2 powi (L + 1)"
    unfolding L_def using ilog_bounds [of 2 m] mp by simp_all
  have Le: "L \<le> e" by (simp add: e_def L_def)
  have p1024: "(2::rat) ^ 1024 = 2 powi 1024"
    by (simp only: power_int_of_nat [symmetric] of_nat_numeral)
  have p53: "(2::rat) ^ 53 = 2 powi 53"
    by (simp only: power_int_of_nat [symmetric] of_nat_numeral)
  have p52: "(2::rat) ^ 52 = 2 powi 52"
    by (simp only: power_int_of_nat [symmetric] of_nat_numeral)
  have q53: "2 powi 53 * q = 2 powi (e + 1)"
  proof -
    have "(2::rat) powi 53 * 2 powi (e - 52) = 2 powi (53 + (e - 52))"
      by (rule power_int_add [symmetric]) simp
    then show ?thesis by (simp add: q_def algebra_simps)
  qed
  have q52: "2 powi 52 * q = 2 powi e"
  proof -
    have "(2::rat) powi 52 * 2 powi (e - 52) = 2 powi (52 + (e - 52))"
      by (rule power_int_add [symmetric]) simp
    then show ?thesis by (simp add: q_def)
  qed
  have "m < 2 powi (e + 1)"
  proof -
    have "(2::rat) powi (L + 1) \<le> 2 powi (e + 1)"
      by (rule power_int_increasing) (use Le in simp_all)
    with bd(2) show ?thesis by simp
  qed
  then have "m < 2 powi 53 * q" by (simp only: q53)
  then have "m / q < 2 powi 53" using q0 by (simp add: pos_divide_less_eq)
  then have "m / q \<le> of_int (2 ^ 53)" by (simp add: p53 [symmetric])
  then have nle: "n \<le> 2 ^ 53" unfolding n_def by (rule rne_le)
  show ?thesis
  proof
    assume lt: "of_int n * q < 2 ^ 1024"
    show "e < 1023 \<or> (e = 1023 \<and> n < 2 ^ 53)"
    proof (rule ccontr)
      assume neg: "\<not> (e < 1023 \<or> (e = 1023 \<and> n < 2 ^ 53))"
      then have e1023: "1023 \<le> e" by simp
      then have eL: "e = L" by (simp add: e_def L_def max_def split: if_splits)
      have "2 powi 52 * q \<le> m" using bd(1) by (simp only: q52 eL)
      then have "2 powi 52 \<le> m / q" using q0 by (simp add: pos_le_divide_eq)
      then have "of_int (2 ^ 52) \<le> m / q" by (simp add: p52 [symmetric])
      then have nge: "2 ^ 52 \<le> n" unfolding n_def by (rule rne_ge)
      have "(2::rat) powi 1024 \<le> of_int n * q"
      proof (cases "e = 1023")
        case True
        with neg have "2 ^ 53 \<le> n" by simp
        then have "(of_int (2 ^ 53) :: rat) \<le> of_int n" by (simp only: of_int_le_iff)
        then have "(2::rat) powi 53 \<le> of_int n" by (simp add: p53 [symmetric])
        then have "2 powi 53 * q \<le> of_int n * q" using q0 by simp
        then have "2 powi (e + 1) \<le> of_int n * q" by (simp only: q53)
        moreover have "e + 1 = 1024" using True by simp
        ultimately show ?thesis by (simp only:)
      next
        case False
        with e1023 have e1024: "1024 \<le> e" by simp
        have "(of_int (2 ^ 52) :: rat) \<le> of_int n" using nge by (simp only: of_int_le_iff)
        then have "(2::rat) powi 52 \<le> of_int n" by (simp add: p52 [symmetric])
        then have "2 powi 52 * q \<le> of_int n * q" using q0 by simp
        then have a: "2 powi e \<le> of_int n * q" by (simp only: q52)
        have "(2::rat) powi 1024 \<le> 2 powi e"
          by (rule power_int_increasing) (use e1024 in simp_all)
        with a show ?thesis by simp
      qed
      with lt show False by (simp only: p1024)
    qed
  next
    assume c: "e < 1023 \<or> (e = 1023 \<and> n < 2 ^ 53)"
    have "of_int n * q < 2 powi 1024"
    proof (cases "e < 1023")
      case True
      have "(of_int n :: rat) \<le> of_int (2 ^ 53)" using nle by (simp only: of_int_le_iff)
      then have "(of_int n :: rat) \<le> 2 powi 53" by (simp add: p53 [symmetric])
      then have "of_int n * q \<le> 2 powi 53 * q" using q0 by simp
      then have a: "of_int n * q \<le> 2 powi (e + 1)" by (simp only: q53)
      have "(2::rat) powi (e + 1) \<le> 2 powi 1023"
        by (rule power_int_increasing) (use True in simp_all)
      moreover have "(2::rat) powi 1023 < 2 powi 1024"
        by (rule power_int_strict_increasing) simp_all
      ultimately show ?thesis using a by simp
    next
      case False
      with c have e: "e = 1023" and n: "n < 2 ^ 53" by simp_all
      have "(of_int n :: rat) < of_int (2 ^ 53)" using n by (simp only: of_int_less_iff)
      then have "(of_int n :: rat) < 2 powi 53" by (simp add: p53 [symmetric])
      then have "of_int n * q < 2 powi 53 * q" using q0 by simp
      then have "of_int n * q < 2 powi (e + 1)" by (simp only: q53)
      moreover have "e + 1 = 1024" using e by simp
      ultimately show ?thesis by (simp only:)
    qed
    then show "of_int n * q < 2 ^ 1024" by (simp only: p1024)
  qed
qed

lemma round_double_code [code]:
  "round_double m =
     (if m = 0 then Some 0
      else let e = max (ilog 2 m) (- 1022);
               q = 2 powi (e - 52);
               n = rne (m / q)
           in if e < 1023 \<or> (e = 1023 \<and> n < 2 ^ 53) then Some (of_int n * q) else None)"
proof (cases "m = 0")
  case True
  then show ?thesis by (simp add: round_double_def)
next
  case False
  show ?thesis
    unfolding round_double_def Let_def
    by (simp only: round_double_overflow [OF False])
qed

subsection \<open>Scaling by a power of two is exact\<close>

lemma round_double_scale:
  assumes r: "round_double m = Some m" and m: "0 < m" and k: "2 ^ k \<le> m"
  shows "round_double (m / 2 ^ k) = Some (m / 2 ^ k)"
proof -
  define e where "e = ilog 2 m"
  have eb: "2 powi e \<le> m" "m < 2 powi (e + 1)"
    unfolding e_def using ilog_bounds [of 2 m] m by simp_all
  have "(2::rat) powi int k < 2 powi (e + 1)"
    using k eb(2) by simp
  then have ke: "int k < e + 1"
    using power_int_increasing [of "e + 1" "int k" "2::rat"] by (cases "int k < e + 1") auto
  have e0: "0 \<le> e" using ke by simp
  define n where "n = rne (m / 2 powi (e - 52))"
  have mx: "max e (- 1022) = e" using e0 by simp
  from r have c: "e < 1023 \<or> (e = 1023 \<and> n < 2 ^ 53)" and v: "of_int n * 2 powi (e - 52) = m"
    using m unfolding round_double_code e_def [symmetric] mx Let_def n_def [symmetric]
    by (simp_all split: if_splits)
  have e': "ilog 2 (m / 2 ^ k) = e - int k"
  proof (rule ilog_unique)
    show "1 < (2::int)" by simp
    have "of_int 2 powi (e - int k) = (2::rat) powi e / 2 ^ k"
      by (simp add: power_int_diff)
    also have "\<dots> \<le> m / 2 ^ k" using eb(1) by (simp add: divide_right_mono)
    finally show "of_int 2 powi (e - int k) \<le> m / 2 ^ k" .
    have "m / 2 ^ k < (2::rat) powi (e + 1) / 2 ^ k"
      using eb(2) by (simp add: divide_strict_right_mono)
    also have "\<dots> = of_int 2 powi (e - int k + 1)"
    proof -
      have "(2::rat) powi (e - int k + 1) = 2 powi ((e + 1) - int k)"
        by (simp add: algebra_simps)
      also have "\<dots> = 2 powi (e + 1) / 2 powi (int k)"
        by (rule power_int_diff) simp
      finally show ?thesis by simp
    qed
    finally show "m / 2 ^ k < of_int 2 powi (e - int k + 1)" .
  qed
  have mx': "max (e - int k) (- 1022) = e - int k" using ke by simp
  have q': "(2::rat) powi (e - int k - 52) = 2 powi (e - 52) / 2 ^ k"
  proof -
    have "(2::rat) powi (e - int k - 52) = 2 powi ((e - 52) - int k)"
      by (simp add: algebra_simps)
    also have "\<dots> = 2 powi (e - 52) / 2 powi (int k)"
      by (rule power_int_diff) simp
    finally show ?thesis by simp
  qed
  have quo: "m / 2 ^ k / (2 powi (e - 52) / 2 ^ k) = of_int n"
    using v [symmetric] by simp
  have c': "e - int k < 1023 \<or> (e - int k = 1023 \<and> n < 2 ^ 53)"
    using c by auto
  have nz: "m / 2 ^ k \<noteq> 0" using m by simp
  show ?thesis
    unfolding round_double_code e' mx' Let_def q' quo
    using nz c' v by (simp add: field_simps)
qed

subsection \<open>Text of numbers and of the report\<close>

lemma pad_left_0 [simp]: "pad_left 0 c s = s"
  by (simp add: pad_left_def)

lemma digit_char_simps:
  "digit_char 0 = CHR ''0''" "digit_char 1 = CHR ''1''" "digit_char 2 = CHR ''2''"
  "digit_char 3 = CHR ''3''" "digit_char 4 = CHR ''4''" "digit_char 5 = CHR ''5''"
  "digit_char 6 = CHR ''6''" "digit_char 7 = CHR ''7''" "digit_char 8 = CHR ''8''"
  "digit_char 9 = CHR ''9''"
  by (simp_all add: digit_char_def)

lemma dec_digits_small: "n < 10 \<Longrightarrow> dec_digits n = [digit_char n]"
  by (simp add: dec_digits.simps)

lemma dec_digits_two: "10 \<le> n \<Longrightarrow> n < 100 \<Longrightarrow> dec_digits n = [digit_char (n div 10), digit_char (n mod 10)]"
  by (subst dec_digits.simps) (simp add: dec_digits_small)

lemma pad2_digits:
  assumes "0 \<le> k" "k < 100"
  shows "pad_left 2 (CHR ''0'') (string_of_int k) = two_digits k"
proof (cases "k < 10")
  case True
  then show ?thesis using assms
    by (simp add: string_of_int_def dec_digits_small pad_left_def digit_char_simps two_digits_def)
next
  case False
  then show ?thesis using assms
    by (simp add: string_of_int_def dec_digits_two pad_left_def two_digits_def)
qed

lemma displayInfo_text:
  assumes "os_width os = 0"
  shows "displayInfo v os =
          \<lparr> os_text = os_text os @ report_head v
              @ ''Duration: '' @ string_of_int (sint (static_cast_int (duration v)) sdiv 3600)
                 @ '':'' @ pad_left 2 (CHR ''0'')
                          (string_of_int ((sint (static_cast_int (duration v)) smod 3600) sdiv 60))
                 @ '':'' @ pad_left 2 (CHR ''0'')
                          (string_of_int (sint (static_cast_int (duration v)) smod 60))
                 @ ''\<newline>''
              @ report_tail (os_floatfield os) (os_precision os) v,
            os_fill = CHR ''0'', os_width = 0, os_precision = 2, os_floatfield = Float_fixed \<rparr>"
  using assms
  by (cases os) (simp add: displayInfo_def chain_def put_def put_int_def put_double_def setfill_def setw_def fixed_def
      setprecision_def Let_def format_double_def report_head_def report_tail_def)

lemma sint_cint_of_int:
  "- (2 ^ 31) \<le> t \<Longrightarrow> t < 2 ^ 31 \<Longrightarrow> sint (word_of_int t :: cint) = t"
  by (simp add: sint_sbintrunc' signed_take_bit_int_eq_self)

lemma static_cast_int_nonneg:
  assumes "0 \<le> m" "\<lfloor>m\<rfloor> < 2 ^ 31"
  shows "sint (static_cast_int (Finite False m)) = \<lfloor>m\<rfloor>"
proof -
  have "0 \<le> \<lfloor>m\<rfloor>" using assms(1) by simp
  then have r: "- (2 ^ 31) \<le> \<lfloor>m\<rfloor>" by (rule order_trans [rotated]) simp
  have "static_cast_int (Finite False m) = word_of_int \<lfloor>m\<rfloor>"
    using r assms(2) by (simp add: static_cast_int_def truncated_def)
  then show ?thesis
    using r assms(2) by (simp only: sint_cint_of_int)
qed

lemma sint_int_min: "sint int_min = - (2 ^ 31)"
  unfolding int_min_def by (rule sint_cint_of_int) simp_all

lemma static_cast_int_large:
  assumes "0 \<le> m" "2 ^ 31 \<le> \<lfloor>m\<rfloor>"
  shows "sint (static_cast_int (Finite False m)) = - (2 ^ 31)"
proof -
  have "static_cast_int (Finite False m) = int_min"
    using assms(2) by (simp add: static_cast_int_def truncated_def)
  then show ?thesis by (simp only: sint_int_min)
qed

lemma sdiv_smod_nonneg:
  fixes t :: int
  assumes "0 \<le> t" "0 < l"
  shows "t sdiv l = t div l" "t smod l = t mod l"
  using assms by (simp_all add: signed_divide_int_def signed_modulo_int_def sgn_if)

lemma duration_text_nonneg:
  fixes t :: int
  assumes "0 \<le> t"
  shows "string_of_int (t sdiv 3600)
           @ '':'' @ pad_left 2 (CHR ''0'') (string_of_int ((t smod 3600) sdiv 60))
           @ '':'' @ pad_left 2 (CHR ''0'') (string_of_int (t smod 60)) = hms t"
proof -
  have a: "t sdiv 3600 = t div 3600" "t smod 3600 = t mod 3600" "t smod 60 = t mod 60"
    using assms by (simp_all add: sdiv_smod_nonneg)
  have b: "(t mod 3600) sdiv 60 = t mod 3600 div 60"
    by (simp add: sdiv_smod_nonneg)
  have c: "0 \<le> t div 3600" using assms by simp
  have d: "0 \<le> t mod 3600 div 60" "t mod 3600 div 60 < 100"
    by (simp_all add: pos_imp_zdiv_nonneg_iff)
  have e: "0 \<le> t mod 60" "t mod 60 < 100"
    by simp_all
  have f: "string_of_int (t div 3600) = dec_digits (t div 3600)"
    using c by (simp add: string_of_int_def)
  show ?thesis
    unfolding a b hms_def pad2_digits [OF d] pad2_digits [OF e] f by simp
qed




subsection \<open>Sizes\<close>

lemma round_double_1024: "round_double 1024 = Some 1024"
  by code_simp

lemma KB_value: "KB = Finite False 1024"
  by (simp add: KB_def double_of_int_def mk_double_def round_double_1024)

lemma round_double_pow2_20: "round_double 1048576 = Some 1048576"
  by code_simp

lemma MB_value: "MB = Finite False 1048576"
  by (simp add: MB_def KB_value double_of_int_def mk_double_def round_double_1024 round_double_pow2_20)

lemma round_double_pow2_30: "round_double 1073741824 = Some 1073741824"
  by code_simp

lemma GB_value: "GB = Finite False 1073741824"
  by (simp add: GB_def MB_value double_of_int_def mk_double_def round_double_1024 round_double_pow2_30)

lemma ddiv_pow2_exact:
  assumes "round_double m = Some m" "2 ^ k \<le> m"
  shows "ddiv (Finite False m) (Finite False (2 ^ k)) = Finite False (m / 2 ^ k)"
proof -
  have "0 < (2::rat) ^ k" by simp
  then have m: "0 < m" using assms(2) by (rule less_le_trans)
  show ?thesis
    by (simp add: mk_double_def round_double_scale [OF assms(1) m assms(2)])
qed

lemma formatSize_finite:
  assumes "round_double m = Some m"
  shows "formatSize (Finite False m) =
     (if 1073741824 \<le> m then to_string (Finite False (m / 1073741824)) @ '' GB''
      else if 1048576 \<le> m then to_string (Finite False (m / 1048576)) @ '' MB''
      else if 1024 \<le> m then to_string (Finite False (m / 1024)) @ '' KB''
      else to_string (Finite False m) @ '' bytes'')"
proof -
  have g: "1073741824 \<le> m \<Longrightarrow> ddiv (Finite False m) (Finite False 1073741824) = Finite False (m / 1073741824)"
    using ddiv_pow2_exact [OF assms, of 30] by simp
  have h: "1048576 \<le> m \<Longrightarrow> ddiv (Finite False m) (Finite False 1048576) = Finite False (m / 1048576)"
    using ddiv_pow2_exact [OF assms, of 20] by simp
  have k: "1024 \<le> m \<Longrightarrow> ddiv (Finite False m) (Finite False 1024) = Finite False (m / 1024)"
    using ddiv_pow2_exact [OF assms, of 10] by simp
  show ?thesis
    unfolding formatSize_def GB_value MB_value KB_value dge_def
    using g h k by (simp add: signed_def)
qed

lemma length_dec_digits_le:
  "0 < d \<Longrightarrow> k < 10 ^ d \<Longrightarrow> length (dec_digits k) \<le> d"
proof (induction d arbitrary: k)
  case 0
  then show ?case by simp
next
  case (Suc d)
  show ?case
  proof (cases "k < 10")
    case True
    then show ?thesis by (simp add: dec_digits.simps)
  next
    case False
    then have d: "0 < d" using Suc.prems(2) by (cases d) auto
    have "k div 10 < 10 ^ d" using Suc.prems(2) by simp
    from Suc.IH [OF d this] False show ?thesis
      by (subst dec_digits.simps) simp
  qed
qed

lemma length_pad_left: "length s \<le> w \<Longrightarrow> length (pad_left w c s) = w"
  by (simp add: pad_left_def)

lemma to_string_finite:
  "to_string (Finite s m) =
     sign_text s @ dec_digits (rne (m * 1000000) div 1000000) @ ''.''
       @ pad_left 6 (CHR ''0'') (dec_digits (rne (m * 1000000) mod 1000000))"
  "length (pad_left 6 (CHR ''0'') (dec_digits (rne (m * 1000000) mod 1000000))) = 6"
proof -
  show "to_string (Finite s m) =
     sign_text s @ dec_digits (rne (m * 1000000) div 1000000) @ ''.''
       @ pad_left 6 (CHR ''0'') (dec_digits (rne (m * 1000000) mod 1000000))"
    by (simp add: to_string_def fixed_digits_def Let_def)
  have "rne (m * 1000000) mod 1000000 < 10 ^ 6" by simp
  then have "length (dec_digits (rne (m * 1000000) mod 1000000)) \<le> 6"
    by (rule length_dec_digits_le [rotated]) simp
  then show "length (pad_left 6 (CHR ''0'') (dec_digits (rne (m * 1000000) mod 1000000))) = 6"
    by (rule length_pad_left)
qed

lemma formatSize_vectors:
  "formatSize (Finite False 500) = ''500.000000 bytes''"
  "formatSize (Finite False 2048) = ''2.000000 KB''"
  "formatSize (Finite False 1048576) = ''1.000000 MB''"
  "formatSize (Finite False 1073741824) = ''1.000000 GB''"
  "formatSize (Finite False 1024) = ''1.000000 KB''"
  "formatSize (Finite False 1023) = ''1023.000000 bytes''"
  by code_simp+

subsection \<open>Accuracy of rounding\<close>

lemma rne_error: "\<bar>of_int (rne x) - x\<bar> \<le> 1 / 2"
proof -
  define d where "d = x - of_int \<lfloor>x\<rfloor>"
  have d: "0 \<le> d" "d < 1" unfolding d_def by linarith+
  have x: "x = of_int \<lfloor>x\<rfloor> + d" unfolding d_def by simp
  consider "d < 1 / 2" | "1 / 2 < d" | "d = 1 / 2" by linarith
  then show ?thesis
  proof cases
    case 1
    then have "rne x = \<lfloor>x\<rfloor>" by (simp add: rne_def Let_def d_def)
    then show ?thesis using 1 d x by simp
  next
    case 2
    then have "rne x = \<lfloor>x\<rfloor> + 1" by (simp add: rne_def Let_def d_def)
    then show ?thesis using 2 d x by simp
  next
    case 3
    then have "rne x = \<lfloor>x\<rfloor> \<or> rne x = \<lfloor>x\<rfloor> + 1" by (simp add: rne_def Let_def d_def)
    then show ?thesis using 3 x by auto
  qed
qed

lemma round_double_error:
  assumes lo: "2 powi (- 1022) \<le> m" and hi: "m < 2 ^ 1023"
  shows "\<exists>r. round_double m = Some r \<and> \<bar>r - m\<bar> \<le> m / 2 ^ 53"
proof -
  have m: "0 < m" using lo by (rule less_le_trans [rotated]) simp
  define e where "e = ilog 2 m"
  have eb: "2 powi e \<le> m" "m < 2 powi (e + 1)"
    unfolding e_def using ilog_bounds [of 2 m] m by simp_all
  have "(2::rat) powi (- 1022) < 2 powi (e + 1)" using lo eb(2) by simp
  then have e1: "- 1022 < e + 1"
    using power_int_increasing [of "e + 1" "- 1022" "2::rat"] by (cases "- 1022 < e + 1") auto
  have "(2::rat) powi e < 2 powi 1023" using hi eb(1) by simp
  then have e2: "e < 1023"
    using power_int_increasing [of 1023 e "2::rat"] by (cases "e < 1023") auto
  have mx: "max e (- 1022) = e" using e1 by simp
  define q where "q = (2::rat) powi (e - 52)"
  define n where "n = rne (m / q)"
  have q0: "0 < q" unfolding q_def by simp
  have r: "round_double m = Some (of_int n * q)"
    using m e2 unfolding round_double_code e_def [symmetric] mx Let_def q_def [symmetric]
      n_def [symmetric] by simp
  have "\<bar>of_int n * q - m\<bar> = \<bar>of_int n - m / q\<bar> * q"
  proof -
    have "of_int n * q - m = (of_int n - m / q) * q"
      using q0 by (simp add: field_simps)
    then have "\<bar>of_int n * q - m\<bar> = \<bar>of_int n - m / q\<bar> * \<bar>q\<bar>"
      by (simp only: abs_mult)
    then show ?thesis using q0 by simp
  qed
  also have "\<dots> \<le> 1 / 2 * q"
    using rne_error [of "m / q"] q0 unfolding n_def by (simp add: mult_right_mono)
  also have "\<dots> = 2 powi e / 2 ^ 53"
  proof -
    have "q = 2 powi e / 2 powi 52" unfolding q_def by (rule power_int_diff) simp
    then show ?thesis by simp
  qed
  also have "\<dots> \<le> m / 2 ^ 53" using eb(1) by (simp add: divide_right_mono)
  finally show ?thesis using r by blast
qed

lemma sq_up:
  fixes u :: rat
  assumes "0 \<le> u" "u \<le> 1 / 8"
  shows "(1 + u) * (1 + u) \<le> (1 + 4 * u) * (1 - u)"
proof -
  have "u * u \<le> u * (1 / 8)" using assms by (intro mult_left_mono) auto
  then have "5 * (u * u) \<le> u" using assms by linarith
  then show ?thesis by (simp add: algebra_simps)
qed

lemma sq_dn:
  fixes u :: rat
  assumes "0 \<le> u"
  shows "(1 - 4 * u) * (1 + u) \<le> (1 - u) * (1 - u)"
proof -
  have "0 \<le> u * u" using assms by simp
  then have "- u \<le> 5 * (u * u)" using assms by linarith
  then show ?thesis by (simp add: algebra_simps)
qed

lemma rel_chain:
  fixes A B r1 r2 r3 u :: rat
  assumes A: "0 < A" and B: "0 < B" and u0: "0 \<le> u" and u8: "u \<le> 1 / 8"
    and e1: "\<bar>r1 - A\<bar> \<le> A * u" and e2: "\<bar>r2 - B\<bar> \<le> B * u"
    and e3: "\<bar>r3 - r1 / r2\<bar> \<le> r1 / r2 * u"
  shows "\<bar>r3 - A / B\<bar> \<le> A / B * (4 * u)"
proof -
  have u1: "0 < 1 - u" "0 < 1 + u" using u0 u8 by linarith+
  have r1b: "A * (1 - u) \<le> r1" "r1 \<le> A * (1 + u)"
    using e1 by (simp_all add: abs_le_iff algebra_simps)
  have r2b: "B * (1 - u) \<le> r2" "r2 \<le> B * (1 + u)"
    using e2 by (simp_all add: abs_le_iff algebra_simps)
  have p1: "0 < A * (1 - u)" "0 < B * (1 - u)" using A B u1 by simp_all
  have r1p: "0 < r1" using p1(1) r1b(1) by linarith
  have r2p: "0 < r2" using p1(2) r2b(1) by linarith
  define C where "C = r1 / r2"
  have Cp: "0 < C" unfolding C_def using r1p r2p by simp
  have Cu: "C \<le> A * (1 + u) / (B * (1 - u))"
    unfolding C_def using r1p r1b(2) p1(2) r2b(1) by (intro frac_le) simp_all
  have Cl: "A * (1 - u) / (B * (1 + u)) \<le> C"
    unfolding C_def using p1(1) r1b(1) r2p r2b(2) by (intro frac_le) simp_all
  have r3b: "C * (1 - u) \<le> r3" "r3 \<le> C * (1 + u)"
    using e3 unfolding C_def [symmetric] by (simp_all add: abs_le_iff algebra_simps)
  have AB: "0 < A / B" using A B by simp
  have up: "r3 \<le> A / B * (1 + 4 * u)"
  proof -
    have "r3 \<le> C * (1 + u)" by (rule r3b(2))
    also have "\<dots> \<le> A * (1 + u) / (B * (1 - u)) * (1 + u)"
      using Cu u1(2) by (intro mult_right_mono) simp_all
    also have "\<dots> = A / B * ((1 + u) * (1 + u) / (1 - u))"
      by simp
    also have "\<dots> \<le> A / B * (1 + 4 * u)"
    proof (rule mult_left_mono)
      show "(1 + u) * (1 + u) / (1 - u) \<le> 1 + 4 * u"
        using sq_up [OF u0 u8] u1(1) by (simp add: pos_divide_le_eq)
      show "0 \<le> A / B" using AB by simp
    qed
    finally show ?thesis .
  qed
  have dn: "A / B * (1 - 4 * u) \<le> r3"
  proof -
    have "A / B * (1 - 4 * u) \<le> A / B * ((1 - u) * (1 - u) / (1 + u))"
    proof (rule mult_left_mono)
      show "1 - 4 * u \<le> (1 - u) * (1 - u) / (1 + u)"
        using sq_dn [OF u0] u1(2) by (simp add: pos_le_divide_eq)
      show "0 \<le> A / B" using AB by simp
    qed
    also have "\<dots> = A * (1 - u) / (B * (1 + u)) * (1 - u)"
      by simp
    also have "\<dots> \<le> C * (1 - u)"
      using Cl u1(1) by (intro mult_right_mono) simp_all
    also have "\<dots> \<le> r3" by (rule r3b(1))
    finally show ?thesis .
  qed
  show ?thesis
    using up dn by (simp add: abs_le_iff algebra_simps)
qed

subsection \<open>The bitrate\<close>

lemma double_of_int_8: "double_of_int 8 = Finite False 8"
  by code_simp

lemma double_of_int_million: "double_of_int 1000000 = Finite False 1000000"
  by code_simp

lemma calculateBitrate_finite:
  assumes "size v = Finite False s" "duration v = Finite False d"
  shows "calculateBitrate v =
           ddiv (mk_double False (s * 8)) (mk_double False (d * 1000000))"
  by (simp add: calculateBitrate_def assms double_of_int_8 double_of_int_million)

lemma bitrate_accuracy:
  assumes sz: "size v = Finite False s" and du: "duration v = Finite False d"
    and s: "2 powi (- 500) \<le> s" "s \<le> 2 ^ 500"
    and d: "2 powi (- 500) \<le> d" "d \<le> 2 ^ 500"
  shows "\<exists>r. calculateBitrate v = Finite False r
           \<and> \<bar>r - s * 8 / (d * 1000000)\<bar> \<le> s * 8 / (d * 1000000) / 2 ^ 51"
proof -
  have sp: "0 < s" using s(1) by (rule less_le_trans [rotated]) simp
  have dp: "0 < d" using d(1) by (rule less_le_trans [rotated]) simp
  define A B where "A = s * 8" and "B = d * 1000000"
  have Ap: "0 < A" and Bp: "0 < B" unfolding A_def B_def using sp dp by simp_all
  have Alo: "2 powi (- 500) \<le> A" unfolding A_def using s(1) sp by linarith
  have Ahi: "A \<le> 2 ^ 503" unfolding A_def using s(2) by simp
  have Blo: "2 powi (- 500) \<le> B" unfolding B_def using d(1) dp by linarith
  have Bhi: "B \<le> 2 ^ 520"
  proof -
    have "B \<le> 2 ^ 500 * 1000000" unfolding B_def using d(2) by simp
    also have "\<dots> \<le> 2 ^ 500 * (2 ^ 20 :: rat)" by (intro mult_left_mono) simp_all
    also have "\<dots> = 2 ^ 520" by (simp add: power_add [symmetric])
    finally show ?thesis .
  qed
  have p1: "(2::rat) powi (- 1022) \<le> 2 powi (- 500)"
    by (rule power_int_increasing) simp_all
  have p2: "(2::rat) ^ 503 < 2 ^ 1023" "(2::rat) ^ 520 < 2 ^ 1023"
    by (simp_all add: power_strict_increasing_iff)
  obtain r1 where r1: "round_double A = Some r1" "\<bar>r1 - A\<bar> \<le> A / 2 ^ 53"
    using round_double_error [of A] Alo Ahi p1 p2 by (meson order_trans le_less_trans)
  obtain r2 where r2: "round_double B = Some r2" "\<bar>r2 - B\<bar> \<le> B / 2 ^ 53"
    using round_double_error [of B] Blo Bhi p1 p2 by (meson order_trans le_less_trans)
  define u :: rat where "u = 1 / 2 ^ 53"
  have u: "0 \<le> u" "u \<le> 1 / 8" "u \<le> 1 / 2" unfolding u_def by simp_all
  have e1: "\<bar>r1 - A\<bar> \<le> A * u" and e2: "\<bar>r2 - B\<bar> \<le> B * u"
    using r1(2) r2(2) unfolding u_def by simp_all
  have h: "A / 2 ^ 53 \<le> A / 2" "B / 2 ^ 53 \<le> B / 2"
    using Ap Bp by (simp_all add: divide_left_mono)
  have r1b: "A / 2 \<le> r1" "r1 \<le> A * 2"
  proof -
    from r1(2) have a: "r1 - A \<le> A / 2 ^ 53" "- (r1 - A) \<le> A / 2 ^ 53"
      unfolding abs_le_iff by blast+
    have "r1 - A \<le> A / 2" "- (r1 - A) \<le> A / 2"
      using a(1) h(1) apply (rule order_trans) using a(2) h(1) by (rule order_trans)
    then show "A / 2 \<le> r1" "r1 \<le> A * 2" using Ap by linarith+
  qed
  have r2b: "B / 2 \<le> r2" "r2 \<le> B * 2"
  proof -
    from r2(2) have a: "r2 - B \<le> B / 2 ^ 53" "- (r2 - B) \<le> B / 2 ^ 53"
      unfolding abs_le_iff by blast+
    have "r2 - B \<le> B / 2" "- (r2 - B) \<le> B / 2"
      using a(1) h(2) apply (rule order_trans) using a(2) h(2) by (rule order_trans)
    then show "B / 2 \<le> r2" "r2 \<le> B * 2" using Bp by linarith+
  qed
  have r1p: "0 < r1" using r1b(1) Ap by linarith
  have r2p: "0 < r2" using r2b(1) Bp by linarith
  define C where "C = r1 / r2"
  have Clo: "2 powi (- 1022) \<le> C"
  proof -
    have "(2::rat) powi (- 1022) = 2 powi (- 500) / 2 / (2 ^ 520 * 2)"
      by (simp add: power_int_minus field_simps)
    also have "\<dots> \<le> r1 / r2"
    proof (rule frac_le)
      show "0 \<le> r1" using r1p by simp
      show "2 powi (- 500) / 2 \<le> r1" using Alo r1b(1) by linarith
      show "0 < r2" by (rule r2p)
      show "r2 \<le> 2 ^ 520 * 2" using Bhi r2b(2) by linarith
    qed
    finally show ?thesis unfolding C_def .
  qed
  have Chi: "C < 2 ^ 1023"
  proof -
    have "r1 / r2 \<le> (2 ^ 503 * 2) / (2 powi (- 500) / 2)"
    proof (rule frac_le)
      show "0 \<le> (2::rat) ^ 503 * 2" by simp
      show "r1 \<le> 2 ^ 503 * 2" using Ahi r1b(2) by linarith
      show "0 < (2::rat) powi (- 500) / 2" by simp
      show "2 powi (- 500) / 2 \<le> r2" using Blo r2b(1) by linarith
    qed
    also have "\<dots> = (2::rat) ^ 1005"
      by (simp add: power_int_minus field_simps)
    also have "\<dots> < 2 ^ 1023" by (simp add: power_strict_increasing_iff)
    finally show ?thesis unfolding C_def .
  qed
  obtain r3 where r3: "round_double C = Some r3" "\<bar>r3 - C\<bar> \<le> C / 2 ^ 53"
    using round_double_error [OF Clo Chi] by blast
  have e3: "\<bar>r3 - r1 / r2\<bar> \<le> r1 / r2 * u"
    using r3(2) unfolding u_def C_def by simp
  have "calculateBitrate v = Finite False r3"
    unfolding calculateBitrate_finite [OF sz du] A_def [symmetric] B_def [symmetric]
    using r1(1) r2(1) r3(1) r2p by (simp add: mk_double_def C_def)
  moreover have "\<bar>r3 - A / B\<bar> \<le> A / B / 2 ^ 51"
    using rel_chain [OF Ap Bp u(1,2) e1 e2 e3] unfolding u_def by simp
  ultimately show ?thesis unfolding A_def B_def by blast
qed

lemma string_of_int_nonneg: "0 \<le> k \<Longrightarrow> string_of_int k = dec_digits k"
  by (simp add: string_of_int_def)

lemma format_fixed_2:
  "format_fixed 2 (Finite s r) =
     sign_text s @ dec_digits (rne (r * 100) div 100) @ ''.'' @ two_digits (rne (r * 100) mod 100)"
proof -
  have "0 \<le> rne (r * 100) mod 100" "rne (r * 100) mod 100 < 100" by simp_all
  from pad2_digits [OF this]
  have "pad_left 2 (CHR ''0'') (dec_digits (rne (r * 100) mod 100))
          = two_digits (rne (r * 100) mod 100)"
    by (simp add: string_of_int_nonneg)
  then show ?thesis by (simp add: fixed_digits_def Let_def)
qed

lemma nearest_hundredth: "\<bar>of_int (rne (r * 100)) / 100 - r\<bar> \<le> 1 / 200"
proof -
  have "of_int (rne (r * 100)) / 100 - r = (of_int (rne (r * 100)) - r * 100) / 100"
    by (simp add: field_simps)
  then have "\<bar>of_int (rne (r * 100)) / 100 - r\<bar> = \<bar>(of_int (rne (r * 100)) - r * 100) / 100\<bar>"
    by (rule arg_cong)
  also have "\<dots> = \<bar>of_int (rne (r * 100)) - r * 100\<bar> / \<bar>100\<bar>"
    by (rule abs_divide)
  finally have "\<bar>of_int (rne (r * 100)) / 100 - r\<bar> = \<bar>of_int (rne (r * 100)) - r * 100\<bar> / 100"
    by simp
  also have "\<dots> \<le> (1 / 2) / 100"
    using rne_error [of "r * 100"] by (simp add: divide_right_mono)
  finally show ?thesis by simp
qed

lemma bitrate_scenario:
  "calculateBitrate scenario = Finite False (4127717220754675 / 18014398509481984)"
  by code_simp

subsection \<open>The retry loop\<close>

lemma read_positive_accept:
  "ext cin = (Some x, cin') \<Longrightarrow> \<not> nonpos x
     \<Longrightarrow> read_positive ext nonpos msg (cin, cout) = Some (x, cin', cout)"
  by (subst read_positive.simps) simp

lemma read_positive_retry_nonpos:
  "ext cin = (Some x, cin') \<Longrightarrow> nonpos x
     \<Longrightarrow> read_positive ext nonpos msg (cin, cout)
         = read_positive ext nonpos msg
             (ignore 10000 (Some (CHR ''\<newline>'')) (clear cin'), put msg cout)"
  by (subst read_positive.simps) simp

lemma read_positive_retry_fail:
  "ext cin = (None, cin')
     \<Longrightarrow> read_positive ext nonpos msg (cin, cout)
         = read_positive ext nonpos msg
             (ignore 10000 (Some (CHR ''\<newline>'')) (clear cin'), put msg cout)"
  by (subst read_positive.simps) simp

lemma read_positive_result:
  assumes "read_positive ext nonpos msg st = Some y"
  shows "\<not> nonpos (fst y) \<and> (\<exists>c. ext c = (Some (fst y), fst (snd y)))
           \<and> (\<exists>k. snd (snd y) = (put msg ^^ k) (snd st))"
proof (rule read_positive.raw_induct [where P = "\<lambda>ext nonpos msg st y.
          \<not> nonpos (fst y) \<and> (\<exists>c. ext c = (Some (fst y), fst (snd y)))
           \<and> (\<exists>k. snd (snd y) = (put msg ^^ k) (snd st))", OF _ assms], goal_cases)
  case (1 rp ext nonpos msg st y)
  obtain r cin where e: "ext (fst st) = (r, cin)" by (cases "ext (fst st)")
  let ?st' = "(ignore 10000 (Some (CHR ''\<newline>'')) (clear cin), put msg (snd st))"
  have step: "rp ext nonpos msg ?st' = Some y \<Longrightarrow> ?case"
  proof -
    assume "rp ext nonpos msg ?st' = Some y"
    note ih = 1(1) [OF this]
    have a: "\<not> nonpos (fst y)" "\<exists>c. ext c = (Some (fst y), fst (snd y))"
      using ih by (rule conjunct1, rule conjunct2 [THEN conjunct1])
    have "\<exists>k. snd (snd y) = (put msg ^^ k) (put msg (snd st))"
      using ih by (simp only: snd_conv)
    then obtain k where k: "snd (snd y) = (put msg ^^ k) (put msg (snd st))" ..
    from k have "snd (snd y) = (put msg ^^ Suc k) (snd st)"
      by (simp add: funpow_swap1)
    with a show ?case by blast
  qed
  show ?case
  proof (cases r)
    case None
    with 1(2) e show ?thesis by (intro step) simp
  next
    case (Some x)
    show ?thesis
    proof (cases "nonpos x")
      case True
      with 1(2) e Some show ?thesis by (intro step) simp
    next
      case False
      with 1(2) e Some have y: "y = (x, cin, snd st)" by simp
      have "snd (snd y) = (put msg ^^ 0) (snd st)" by (simp add: y)
      moreover have "ext (fst st) = (Some (fst y), fst (snd y))" by (simp add: y e Some)
      ultimately show ?thesis using False y by fastforce
    qed
  qed
qed

lemma concat_replicate_comm: "concat (replicate k m) @ m = m @ concat (replicate k m)"
  by (induction k) auto

lemma put_funpow_text:
  "os_width os = 0 \<Longrightarrow> (put msg ^^ k) os = os\<lparr>os_text := os_text os @ concat (replicate k msg)\<rparr>"
proof (induction k)
  case 0
  then show ?case by simp
next
  case (Suc k)
  then show ?case by (cases os) (simp add: put_def concat_replicate_comm)
qed

lemma put_text: "os_width os = 0 \<Longrightarrow> put s os = os\<lparr>os_text := os_text os @ s\<rparr>"
  by (cases os) (simp add: put_def)

lemma double_of_int_0: "double_of_int 0 = Finite False 0"
  by (simp add: double_of_int_def mk_double_def round_double_code)

lemma double_pos:
  "\<not> double_nonpos (Finite s m) \<longleftrightarrow> 0 < signed s m"
  by (simp add: double_nonpos_def double_of_int_0 signed_def not_le)

lemma num_get_double_finite:
  "num_get_double str = (Some x, rest) \<Longrightarrow> \<exists>s m. x = Finite s m"
  by (auto simp: num_get_double_def Let_def split: prod.splits if_splits)

lemma extraction_double_finite:
  "extraction num_get_double c = (Some x, c') \<Longrightarrow> \<exists>s m. x = Finite s m"
  by (auto simp: extraction_def Let_def split: if_splits prod.splits option.splits
      dest: num_get_double_finite)

lemma read_positive_double:
  assumes "read_positive (extraction num_get_double) double_nonpos msg st = Some (x, c, os)"
  shows "\<exists>s m. x = Finite s m \<and> 0 < signed s m"
proof -
  from read_positive_result [OF assms]
  have a: "\<not> double_nonpos x" and "\<exists>c0. extraction num_get_double c0 = (Some x, c)"
    by simp_all
  then obtain s m where "x = Finite s m" using extraction_double_finite by blast
  with a show ?thesis by (auto simp: double_pos)
qed

lemma read_positive_int:
  assumes "read_positive (extraction num_get_int) int_nonpos msg st = Some (i, c, os)"
  shows "0 < sint i"
  using read_positive_result [OF assms] by (simp add: int_nonpos_def)

lemma discard_line:
  "length l < n \<Longrightarrow> d \<notin> set l \<Longrightarrow> discard n (Some d) (l @ d # rest) = (rest, False)"
proof (induction l arbitrary: n)
  case Nil
  then show ?case by (cases n) simp_all
next
  case (Cons c l)
  then show ?case by (cases n) auto
qed

lemma discard_limit:
  "length l = n \<Longrightarrow> d \<notin> set l \<Longrightarrow> discard n (Some d) (l @ rest) = (rest, False)"
proof (induction l arbitrary: n)
  case Nil
  then show ?case by simp
next
  case (Cons c l)
  then show ?case by (cases n) auto
qed

lemma ignore_line:
  assumes "is_buf cin = l @ CHR ''\<newline>'' # rest" "CHR ''\<newline>'' \<notin> set l" "length l < 10000"
  shows "ignore 10000 (Some (CHR ''\<newline>'')) (clear cin)
           = \<lparr> is_buf = rest, is_eof = False, is_fail = False \<rparr>"
  using assms discard_line [of l 10000 "CHR ''\<newline>''" rest]
  by (cases cin) (simp add: ignore_def clear_def good_def)

lemma ignore_limit:
  assumes "is_buf cin = l @ rest" "CHR ''\<newline>'' \<notin> set l" "length l = 10000"
  shows "ignore 10000 (Some (CHR ''\<newline>'')) (clear cin)
           = \<lparr> is_buf = rest, is_eof = False, is_fail = False \<rparr>"
  using assms discard_limit [of l 10000 "CHR ''\<newline>''" rest]
  by (cases cin) (simp add: ignore_def clear_def good_def)

lemma num_get_double_reject:
  "\<not> is_digit c \<Longrightarrow> c \<noteq> CHR ''+'' \<Longrightarrow> c \<noteq> CHR ''-'' \<Longrightarrow> c \<noteq> CHR ''.''
     \<Longrightarrow> num_get_double (c # s) = (None, c # s)"
  by (simp add: num_get_double_def take_sign_def Let_def)

lemma extraction_reject:
  assumes "good cin" "is_buf cin = c # s" "\<not> isspace c"
    "\<not> is_digit c" "c \<noteq> CHR ''+''" "c \<noteq> CHR ''-''" "c \<noteq> CHR ''.''"
  shows "extraction num_get_double cin = (None, cin\<lparr> is_fail := True \<rparr>)"
  using assms by (cases cin) (simp add: extraction_def Let_def num_get_double_reject good_def)

lemma extraction_5:
  "extraction num_get_double \<lparr> is_buf = ''5\<newline>'', is_eof = False, is_fail = False \<rparr>
     = (Some (Finite False 5), \<lparr> is_buf = ''\<newline>'', is_eof = False, is_fail = False \<rparr>)"
  by code_simp

lemma not_nonpos_5: "\<not> double_nonpos (Finite False 5)"
  by (simp add: double_pos signed_def)

lemma rne_nonneg: "0 \<le> x \<Longrightarrow> 0 \<le> rne x"
  by (simp add: rne_def Let_def)

lemma round_double_nonneg:
  assumes "0 \<le> m" "round_double m = Some r"
  shows "0 \<le> r"
proof (cases "m = 0")
  case True
  with assms(2) show ?thesis by (simp add: round_double_code)
next
  case False
  define q where "q = (2::rat) powi (max (ilog 2 m) (- 1022) - 52)"
  have q: "0 < q" unfolding q_def by simp
  from assms(2) False have "r = of_int (rne (m / q)) * q"
    unfolding round_double_code Let_def q_def [symmetric] by (simp split: if_splits)
  moreover have "0 \<le> rne (m / q)" using assms(1) q by (intro rne_nonneg) simp
  ultimately show ?thesis using q by simp
qed

lemma is_digit_ge: "is_digit c \<Longrightarrow> (48::int) \<le> of_char c"
  by (auto simp: is_digit_def)

lemma foldl_digits_nonneg:
  "0 \<le> a \<Longrightarrow> \<forall>c\<in>set ds. is_digit c
     \<Longrightarrow> 0 \<le> foldl (\<lambda>a c. 10 * a + (of_char c - 48)) (a::int) ds"
proof (induction ds arbitrary: a)
  case Nil
  then show ?case by simp
next
  case (Cons c ds)
  have "0 \<le> 10 * a + (of_char c - 48)"
    using Cons.prems is_digit_ge [of c] by simp
  then show ?case using Cons by simp
qed

lemma digits_val_nonneg: "\<forall>c\<in>set ds. is_digit c \<Longrightarrow> 0 \<le> digits_val ds"
  unfolding digits_val_def by (rule foldl_digits_nonneg) simp_all

lemma decimal_value_nonneg:
  assumes "\<forall>c\<in>set ip. is_digit c" "\<forall>c\<in>set fp. is_digit c"
  shows "0 \<le> decimal_value ip fp ex"
proof -
  have "0 \<le> digits_val (ip @ fp)" using assms by (intro digits_val_nonneg) auto
  then show ?thesis by (simp add: decimal_value_def)
qed

lemma takeWhile_digits: "\<forall>c\<in>set (takeWhile is_digit xs). is_digit c"
  by (auto dest: set_takeWhileD)

lemma round_decimal_nonneg:
  "round_double (decimal_value (takeWhile is_digit a) (takeWhile is_digit b) ex) = Some m
     \<Longrightarrow> 0 \<le> m"
  "round_double (decimal_value (takeWhile is_digit a) [] ex) = Some m \<Longrightarrow> 0 \<le> m"
  by (erule round_double_nonneg [rotated], rule decimal_value_nonneg,
      simp_all add: takeWhile_digits)+

lemma num_get_double_nonneg:
  assumes "num_get_double str = (Some (Finite s m), rest)"
  shows "0 \<le> m"
  using assms unfolding num_get_double_def Let_def
  by (auto split: prod.splits if_splits dest: round_decimal_nonneg)

lemma extraction_double_nonneg:
  "extraction num_get_double c = (Some (Finite s m), c') \<Longrightarrow> 0 \<le> m"
  by (auto simp: extraction_def Let_def split: if_splits prod.splits option.splits
      dest: num_get_double_nonneg)

lemma read_positive_double_pos:
  assumes "read_positive (extraction num_get_double) double_nonpos msg st = Some (x, c, os)"
  shows "\<exists>m. x = Finite False m \<and> 0 < m"
proof -
  from read_positive_double [OF assms] obtain s m where x: "x = Finite s m" "0 < signed s m"
    by blast
  from read_positive_result [OF assms] obtain c0 where
    "extraction num_get_double c0 = (Some x, c)" by auto
  then have "0 \<le> m" using x(1) extraction_double_nonneg by blast
  with x show ?thesis by (cases s) (simp_all add: signed_def)
qed

subsection \<open>The input collector\<close>

lemma collect_SomeE:
  assumes "collect cin0 cout0 = Some ((name, dur, sz, fmt, w, h, fps, codec), cin, cout)"
  obtains c1 c2 c3 o3 c4 o4 c5 o5 c6 o6 c7 o7 where
    "getline cin0 [] = (name, c1)"
    "getline c1 [] = (fmt, c2)"
    "read_positive (extraction num_get_double) double_nonpos ''Please enter a valid duration: ''
       (c2, put ''Duration (in seconds): '' (put ''Format (e.g., .mp4, .mkv): ''
              (put ''Filename (without extension): ''
                (put ''Enter video information:\<newline>'' cout0)))) = Some (dur, c3, o3)"
    "read_positive (extraction num_get_double) double_nonpos ''Please enter a valid size: ''
       (c3, put ''Size (in bytes): '' o3) = Some (sz, c4, o4)"
    "read_positive (extraction num_get_int) int_nonpos ''Please enter a valid width: ''
       (c4, put ''Width (pixels): '' o4) = Some (w, c5, o5)"
    "read_positive (extraction num_get_int) int_nonpos ''Please enter a valid height: ''
       (c5, put ''Height (pixels): '' o5) = Some (h, c6, o6)"
    "read_positive (extraction num_get_double) double_nonpos ''Please enter a valid frame rate: ''
       (c6, put ''Frame Rate (fps): '' o6) = Some (fps, c7, o7)"
    "getline (ignore 1 None c7) [] = (codec, cin)"
    "cout = put ''Video Codec (e.g., H.264, H.265): '' o7"
  using assms unfolding collect_def Let_def
  by (auto split: prod.splits option.splits)


lemma loop_output:
  assumes "read_positive ext nonpos msg (c, os) = Some (x, c', os')" "os_width os = 0"
  shows "\<exists>k. os' = os\<lparr>os_text := os_text os @ concat (replicate k msg)\<rparr>"
proof -
  from read_positive_result [OF assms(1)]
  obtain k where "os' = (put msg ^^ k) os" by auto
  then show ?thesis using put_funpow_text [OF assms(2)] by auto
qed

lemma collect_output:
  assumes c: "collect cin0 cout0 = Some ((name, dur, sz, fmt, w, h, fps, codec), cin, cout)"
    and w0: "os_width cout0 = 0"
  shows "\<exists>k1 k2 k3 k4 k5. cout = cout0\<lparr>os_text := os_text cout0 @ prompts k1 k2 k3 k4 k5\<rparr>"
proof -
  from c obtain c1 c2 c3 o3 c4 o4 c5 o5 c6 o6 c7 o7 where
    r1: "read_positive (extraction num_get_double) double_nonpos ''Please enter a valid duration: ''
       (c2, put ''Duration (in seconds): '' (put ''Format (e.g., .mp4, .mkv): ''
              (put ''Filename (without extension): ''
                (put ''Enter video information:\<newline>'' cout0)))) = Some (dur, c3, o3)"
    and r2: "read_positive (extraction num_get_double) double_nonpos ''Please enter a valid size: ''
       (c3, put ''Size (in bytes): '' o3) = Some (sz, c4, o4)"
    and r3: "read_positive (extraction num_get_int) int_nonpos ''Please enter a valid width: ''
       (c4, put ''Width (pixels): '' o4) = Some (w, c5, o5)"
    and r4: "read_positive (extraction num_get_int) int_nonpos ''Please enter a valid height: ''
       (c5, put ''Height (pixels): '' o5) = Some (h, c6, o6)"
    and r5: "read_positive (extraction num_get_double) double_nonpos ''Please enter a valid frame rate: ''
       (c6, put ''Frame Rate (fps): '' o6) = Some (fps, c7, o7)"
    and o: "cout = put ''Video Codec (e.g., H.264, H.265): '' o7"
    by (rule collect_SomeE)
  define p0 where "p0 = ''Enter video information:\<newline>'' @ ''Filename (without extension): ''
     @ ''Format (e.g., .mp4, .mkv): '' @ ''Duration (in seconds): ''"
  have s0: "put ''Duration (in seconds): '' (put ''Format (e.g., .mp4, .mkv): ''
              (put ''Filename (without extension): ''
                (put ''Enter video information:\<newline>'' cout0)))
            = cout0\<lparr>os_text := os_text cout0 @ p0\<rparr>"
    using w0 by (simp add: put_text p0_def)
  from loop_output [OF r1 [unfolded s0]] w0
  obtain k1 where o3: "o3 = cout0\<lparr>os_text := os_text cout0 @ p0
       @ concat (replicate k1 ''Please enter a valid duration: '')\<rparr>"
    by auto
  have s1: "put ''Size (in bytes): '' o3 = cout0\<lparr>os_text := os_text cout0 @ p0
       @ concat (replicate k1 ''Please enter a valid duration: '') @ ''Size (in bytes): ''\<rparr>"
    using w0 by (simp add: put_text o3)
  from loop_output [OF r2 [unfolded s1]] w0
  obtain k2 where o4: "o4 = cout0\<lparr>os_text := os_text cout0 @ p0
       @ concat (replicate k1 ''Please enter a valid duration: '') @ ''Size (in bytes): ''
       @ concat (replicate k2 ''Please enter a valid size: '')\<rparr>"
    by auto
  have s2: "put ''Width (pixels): '' o4 = cout0\<lparr>os_text := os_text cout0 @ p0
       @ concat (replicate k1 ''Please enter a valid duration: '') @ ''Size (in bytes): ''
       @ concat (replicate k2 ''Please enter a valid size: '') @ ''Width (pixels): ''\<rparr>"
    using w0 by (simp add: put_text o4)
  from loop_output [OF r3 [unfolded s2]] w0
  obtain k3 where o5: "o5 = cout0\<lparr>os_text := os_text cout0 @ p0
       @ concat (replicate k1 ''Please enter a valid duration: '') @ ''Size (in bytes): ''
       @ concat (replicate k2 ''Please enter a valid size: '') @ ''Width (pixels): ''
       @ concat (replicate k3 ''Please enter a valid width: '')\<rparr>"
    by auto
  have s3: "put ''Height (pixels): '' o5 = cout0\<lparr>os_text := os_text cout0 @ p0
       @ concat (replicate k1 ''Please enter a valid duration: '') @ ''Size (in bytes): ''
       @ concat (replicate k2 ''Please enter a valid size: '') @ ''Width (pixels): ''
       @ concat (replicate k3 ''Please enter a valid width: '') @ ''Height (pixels): ''\<rparr>"
    using w0 by (simp add: put_text o5)
  from loop_output [OF r4 [unfolded s3]] w0
  obtain k4 where o6: "o6 = cout0\<lparr>os_text := os_text cout0 @ p0
       @ concat (replicate k1 ''Please enter a valid duration: '') @ ''Size (in bytes): ''
       @ concat (replicate k2 ''Please enter a valid size: '') @ ''Width (pixels): ''
       @ concat (replicate k3 ''Please enter a valid width: '') @ ''Height (pixels): ''
       @ concat (replicate k4 ''Please enter a valid height: '')\<rparr>"
    by auto
  have s4: "put ''Frame Rate (fps): '' o6 = cout0\<lparr>os_text := os_text cout0 @ p0
       @ concat (replicate k1 ''Please enter a valid duration: '') @ ''Size (in bytes): ''
       @ concat (replicate k2 ''Please enter a valid size: '') @ ''Width (pixels): ''
       @ concat (replicate k3 ''Please enter a valid width: '') @ ''Height (pixels): ''
       @ concat (replicate k4 ''Please enter a valid height: '') @ ''Frame Rate (fps): ''\<rparr>"
    using w0 by (simp add: put_text o6)
  from loop_output [OF r5 [unfolded s4]] w0
  obtain k5 where o7: "o7 = cout0\<lparr>os_text := os_text cout0 @ p0
       @ concat (replicate k1 ''Please enter a valid duration: '') @ ''Size (in bytes): ''
       @ concat (replicate k2 ''Please enter a valid size: '') @ ''Width (pixels): ''
       @ concat (replicate k3 ''Please enter a valid width: '') @ ''Height (pixels): ''
       @ concat (replicate k4 ''Please enter a valid height: '') @ ''Frame Rate (fps): ''
       @ concat (replicate k5 ''Please enter a valid frame rate: '')\<rparr>"
    by auto
  have "cout = cout0\<lparr>os_text := os_text cout0 @ prompts k1 k2 k3 k4 k5\<rparr>"
    unfolding o using w0 by (simp add: put_text o7 prompts_def p0_def)
  then show ?thesis by blast
qed

lemma collect_positive:
  assumes c: "collect cin0 cout0 = Some ((name, dur, sz, fmt, w, h, fps, codec), cin, cout)"
  shows "(\<exists>m. dur = Finite False m \<and> 0 < m)
       \<and> (\<exists>m. sz = Finite False m \<and> 0 < m)
       \<and> 0 < sint w \<and> 0 < sint h
       \<and> (\<exists>m. fps = Finite False m \<and> 0 < m)"
proof -
  from c obtain c2 c3 c4 c5 c6 c7 q2 o3 q3 o4 q4 o5 q5 o6 q6 o7 where
    r1: "read_positive (extraction num_get_double) double_nonpos ''Please enter a valid duration: ''
       (c2, q2) = Some (dur, c3, o3)"
    and r2: "read_positive (extraction num_get_double) double_nonpos ''Please enter a valid size: ''
       (c3, q3) = Some (sz, c4, o4)"
    and r3: "read_positive (extraction num_get_int) int_nonpos ''Please enter a valid width: ''
       (c4, q4) = Some (w, c5, o5)"
    and r4: "read_positive (extraction num_get_int) int_nonpos ''Please enter a valid height: ''
       (c5, q5) = Some (h, c6, o6)"
    and r5: "read_positive (extraction num_get_double) double_nonpos ''Please enter a valid frame rate: ''
       (c6, q6) = Some (fps, c7, o7)"
    by (rule collect_SomeE) blast
  show ?thesis
    using read_positive_double_pos [OF r1] read_positive_double_pos [OF r2]
      read_positive_int [OF r3] read_positive_int [OF r4] read_positive_double_pos [OF r5]
    by blast
qed

lemma main_of_collect:
  assumes "collect (cin_init stdin) cout_init
             = Some ((name, dur, sz, fmt, w, h, fps, codec), cin, cout)"
  shows "main stdin =
     (if fmt \<in> {''.mp4'', ''.mkv'', ''.avi'', ''.mov''}
      then Some (0, displayInfo \<lparr> filename = name, duration = dur, size = sz, format = fmt,
                 width = w, height = h, frameRate = fps, videoCodec = codec,
                 supportedFormats = default_supportedFormats \<rparr> cout, [])
      else Some (1, cout, ''Error: Unsupported video format. Supported formats: mp4, mkv, avi, mov\<newline>''))"
  unfolding main_def assms
  by (simp add: VideoFile_new_cases isValidFormat_default unsupported_message_def)

lemma collect_cout_flags:
  assumes "collect cin0 cout_init = Some ((name, dur, sz, fmt, w, h, fps, codec), cin, cout)"
  shows "os_width cout = 0" "os_floatfield cout = Float_default" "os_precision cout = 6"
    "\<exists>k1 k2 k3 k4 k5. os_text cout = prompts k1 k2 k3 k4 k5"
proof -
  have "os_width cout_init = 0" by (simp add: cout_init_def)
  from collect_output [OF assms this] obtain k1 k2 k3 k4 k5 where
    c: "cout = cout_init\<lparr>os_text := os_text cout_init @ prompts k1 k2 k3 k4 k5\<rparr>" by blast
  show "os_width cout = 0" "os_floatfield cout = Float_default" "os_precision cout = 6"
    by (simp_all add: c cout_init_def)
  have "os_text cout = prompts k1 k2 k3 k4 k5" by (simp add: c cout_init_def)
  then show "\<exists>k1 k2 k3 k4 k5. os_text cout = prompts k1 k2 k3 k4 k5" by blast
qed


lemma displayInfo_hms:
  assumes "os_width os = 0" and "duration v = Finite False m"
    and "0 \<le> m" and "\<lfloor>m\<rfloor> < 2 ^ 31"
  shows "displayInfo v os =
          \<lparr> os_text = os_text os @ report_head v
                 @ ''Duration: '' @ hms \<lfloor>m\<rfloor> @ ''\<newline>''
                 @ report_tail (os_floatfield os) (os_precision os) v,
            os_fill = CHR ''0'', os_width = 0, os_precision = 2, os_floatfield = Float_fixed \<rparr>"
proof -
  have t: "0 \<le> \<lfloor>m\<rfloor>" using assms(3) by simp
  note c = static_cast_int_nonneg [OF assms(3,4)]
  show ?thesis
    unfolding displayInfo_text [OF assms(1)] assms(2) c
    using duration_text_nonneg [OF t] by simp
qed

lemma displayInfo_large:
  assumes "os_width os = 0" and "duration v = Finite False m"
    and "0 \<le> m" and "2 ^ 31 \<le> \<lfloor>m\<rfloor>"
  shows "os_text (displayInfo v os) = os_text os @ report_head v
                 @ ''Duration: -596523:-14:-8\<newline>''
                 @ report_tail (os_floatfield os) (os_precision os) v"
proof -
  note c = static_cast_int_large [OF assms(3,4)]
  have d: "string_of_int (- (2 ^ 31) sdiv 3600) = ''-596523''"
    "pad_left 2 (CHR ''0'') (string_of_int ((- (2 ^ 31) smod 3600) sdiv 60)) = ''-14''"
    "pad_left 2 (CHR ''0'') (string_of_int (- (2 ^ 31) smod 60)) = ''-8''"
    by code_simp+
  show ?thesis
    unfolding displayInfo_text [OF assms(1)] assms(2) c d by simp
qed

lemma collect_scenario:
  "collect (cin_init ''movie\<newline>.mp4\<newline>3661\<newline>104857600\<newline>1920\<newline>1080\<newline>29.97\<newline>H.264\<newline>'') cout_init
      = Some ((''movie'', Finite False 3661, Finite False 104857600, ''.mp4'', 1920, 1080,
               Finite False (1054475631502295 / 35184372088832), ''H.264''),
              \<lparr>is_buf = [], is_eof = False, is_fail = False\<rparr>,
              \<lparr>os_text = ''Enter video information:\<newline>Filename (without extension): Format (e.g., .mp4, .mkv): Duration (in seconds): Size (in bytes): Width (pixels): Height (pixels): Frame Rate (fps): Video Codec (e.g., H.264, H.265): '',
               os_fill = CHR '' '', os_width = 0, os_precision = 6,
               os_floatfield = Float_default\<rparr>)"
  by code_simp

subsection \<open>Claims\<close>

text \<open>
  C1 (as amended). \<open>getResolutionName\<close> is "4K" when width \<ge> 3840 and height \<ge> 2160,
  else "1080p" when width \<ge> 1920 and height \<ge> 1080, else "720p" when width \<ge> 1280 and
  height \<ge> 720, else "SD": the first matching class wins, so each class is characterised
  by its own thresholds together with the failure of the earlier ones. The vectors
  (3840,2160), (1920,1080), (1280,720), (640,480) give "4K", "1080p", "720p", "SD";
  the vector (3840,1000) gives "720p", since a height of 1000 fails the 4K and 1080p
  thresholds but meets the 720p one.
\<close>

theorem C1_getResolutionName_priority:
  "getResolutionName v =
     (if 3840 \<le> sint (width v) \<and> 2160 \<le> sint (height v) then ''4K''
      else if 1920 \<le> sint (width v) \<and> 1080 \<le> sint (height v) then ''1080p''
      else if 1280 \<le> sint (width v) \<and> 720 \<le> sint (height v) then ''720p''
      else ''SD'')
   \<and> (getResolutionName v = ''4K'') = (3840 \<le> sint (width v) \<and> 2160 \<le> sint (height v))
   \<and> (getResolutionName v = ''1080p'') =
        ((sint (width v) < 3840 \<or> sint (height v) < 2160)
          \<and> 1920 \<le> sint (width v) \<and> 1080 \<le> sint (height v))
   \<and> (getResolutionName v = ''720p'') =
        ((sint (width v) < 1920 \<or> sint (height v) < 1080)
          \<and> 1280 \<le> sint (width v) \<and> 720 \<le> sint (height v))
   \<and> (getResolutionName v = ''SD'') = (sint (width v) < 1280 \<or> sint (height v) < 720)
   \<and> getResolutionName (v\<lparr>width := 3840, height := 2160\<rparr>) = ''4K''
   \<and> getResolutionName (v\<lparr>width := 1920, height := 1080\<rparr>) = ''1080p''
   \<and> getResolutionName (v\<lparr>width := 1280, height := 720\<rparr>) = ''720p''
   \<and> getResolutionName (v\<lparr>width := 640, height := 480\<rparr>) = ''SD''
   \<and> getResolutionName (v\<lparr>width := 3840, height := 1000\<rparr>) = ''720p''"
  unfolding getResolutionName_def by auto

text \<open>
  C1 (as stated) fails at the vector (3840,1000): the class is "720p", not "SD".
\<close>

theorem C1_vector_3840_1000_counterexample:
  "getResolutionName
     \<lparr> filename = ''movie'', duration = Finite False 3661, size = Finite False 104857600,
       format = ''.mp4'', width = 3840, height = 1000, frameRate = Finite False 30,
       videoCodec = ''H.264'', supportedFormats = default_supportedFormats \<rparr> \<noteq> ''SD''"
  unfolding getResolutionName_def by simp

text \<open>
  C5. Construction fails if and only if the format is not one of ".mp4", ".mkv", ".avi",
  ".mov"; the failure is always the one exception with the one message (the
  unsupported-format error), so no other error leaves the constructor; and a
  construction that does not fail returns the object. Format ".wmv" raises, format
  ".mp4" succeeds.
\<close>

theorem C5_construct_fails_iff_unsupported:
  "((\<exists>e. VideoFile_new name dur sz fmt w h fps codec = Inl e)
      = (fmt \<notin> {''.mp4'', ''.mkv'', ''.avi'', ''.mov''}))
   \<and> ((VideoFile_new name dur sz fmt w h fps codec
          = Inl (Invalid_argument unsupported_message))
      = (fmt \<notin> {''.mp4'', ''.mkv'', ''.avi'', ''.mov''}))
   \<and> ((\<exists>v. VideoFile_new name dur sz fmt w h fps codec = Inr v)
      = (fmt \<in> {''.mp4'', ''.mkv'', ''.avi'', ''.mov''}))
   \<and> VideoFile_new name dur sz ''.wmv'' w h fps codec
        = Inl (Invalid_argument unsupported_message)
   \<and> VideoFile_new name dur sz ''.mp4'' w h fps codec
        = Inr \<lparr> filename = name, duration = dur, size = sz, format = ''.mp4'',
                 width = w, height = h, frameRate = fps, videoCodec = codec,
                 supportedFormats = default_supportedFormats \<rparr>"
  by (simp add: VideoFile_new_cases isValidFormat_default)

text \<open>
  C9. The constructor checks the format and nothing else: whenever the format is one of
  the four supported literals, construction succeeds and stores the numeric arguments as
  they are, whatever their values (zero, negative, infinite or NaN included), and whether
  construction succeeds does not depend on the numeric arguments at all. Positivity
  comes from the input collector: the five numbers it returns are strictly positive.
\<close>

theorem C9_construct_ignores_numeric_fields:
  assumes "fmt \<in> {''.mp4'', ''.mkv'', ''.avi'', ''.mov''}"
  shows "VideoFile_new name dur sz fmt w h fps codec
           = Inr \<lparr> filename = name, duration = dur, size = sz, format = fmt,
                    width = w, height = h, frameRate = fps, videoCodec = codec,
                    supportedFormats = default_supportedFormats \<rparr>
         \<and> isl (VideoFile_new name dur sz fmt w h fps codec)
             = isl (VideoFile_new name' dur' sz' fmt w' h' fps' codec')
         \<and> (collect cin0 cout0 = Some ((name, dur, sz, fmt, w, h, fps, codec), cin1, cout1)
              \<longrightarrow> (\<exists>m. dur = Finite False m \<and> 0 < m) \<and> (\<exists>m. sz = Finite False m \<and> 0 < m)
                   \<and> 0 < sint w \<and> 0 < sint h \<and> (\<exists>m. fps = Finite False m \<and> 0 < m))"
proof -
  have "collect cin0 cout0 = Some ((name, dur, sz, fmt, w, h, fps, codec), cin1, cout1)
              \<longrightarrow> (\<exists>m. dur = Finite False m \<and> 0 < m) \<and> (\<exists>m. sz = Finite False m \<and> 0 < m)
                   \<and> 0 < sint w \<and> 0 < sint h \<and> (\<exists>m. fps = Finite False m \<and> 0 < m)"
    by (rule impI) (rule collect_positive)
  then show ?thesis
    using assms by (auto simp: VideoFile_new_cases isValidFormat_default)
qed

theorem C9_construct_ignores_numeric_fields_witness:
  "VideoFile_new ''clip'' (Finite True 5) (Finite False 0) ''.mkv'' (- 1) 0 (NaN False) ''H.265''
     = Inr \<lparr> filename = ''clip'', duration = Finite True 5, size = Finite False 0,
              format = ''.mkv'', width = - 1, height = 0, frameRate = NaN False,
              videoCodec = ''H.265'', supportedFormats = default_supportedFormats \<rparr>
   \<and> sint (- 1 :: cint) < 0
   \<and> (0::int) < sint (1920 :: cint) \<and> (0::int) < sint (1080 :: cint)"
proof -
  have a: "VideoFile_new ''clip'' (Finite True 5) (Finite False 0) ''.mkv'' (- 1) 0 (NaN False) ''H.265''
     = Inr \<lparr> filename = ''clip'', duration = Finite True 5, size = Finite False 0,
              format = ''.mkv'', width = - 1, height = 0, frameRate = NaN False,
              videoCodec = ''H.265'', supportedFormats = default_supportedFormats \<rparr>"
    by (rule C9_construct_ignores_numeric_fields
          [of "''.mkv''" "''clip''" "Finite True 5" "Finite False 0" "- 1" 0 "NaN False" "''H.265''",
           THEN conjunct1]) simp
  have "(0::int) < sint (1920 :: cint) \<and> (0::int) < sint (1080 :: cint)"
    using C9_construct_ignores_numeric_fields
          [of "''.mp4''" "''movie''" "Finite False 3661" "Finite False 104857600" 1920 1080
              "Finite False (1054475631502295 / 35184372088832)" "''H.264''",
           THEN conjunct2, THEN conjunct2, THEN mp, OF _ collect_scenario]
    by blast
  with a show ?thesis by simp
qed

text \<open>
  C10. Format membership is exact string equality with one of the four literals: the
  search succeeds exactly when the format is an element of the list, construction
  succeeds exactly when the format equals ".mp4", ".mkv", ".avi" or ".mov" character for
  character, and so the uppercase ".MP4", the dotless "mp4" and the padded " .mp4" and
  ".mp4 " are all rejected.
\<close>

theorem C10_format_membership_exact:
  "isValidFormat fmt fs = (fmt \<in> set fs)
   \<and> (\<not> isl (VideoFile_new name dur sz fmt w h fps codec))
       = (fmt = ''.mp4'' \<or> fmt = ''.mkv'' \<or> fmt = ''.avi'' \<or> fmt = ''.mov'')
   \<and> VideoFile_new name dur sz ''.MP4'' w h fps codec
        = Inl (Invalid_argument unsupported_message)
   \<and> VideoFile_new name dur sz ''mp4'' w h fps codec
        = Inl (Invalid_argument unsupported_message)
   \<and> VideoFile_new name dur sz '' .mp4'' w h fps codec
        = Inl (Invalid_argument unsupported_message)
   \<and> VideoFile_new name dur sz ''.mp4 '' w h fps codec
        = Inl (Invalid_argument unsupported_message)
   \<and> VideoFile_new name dur sz ''.Mkv'' w h fps codec
        = Inl (Invalid_argument unsupported_message)"
  by (simp add: VideoFile_new_cases isValidFormat_set default_supportedFormats_def)




text \<open>
  C8. On a stream with no pending field width, the report is the header line, then
  "Filename: " with the filename and the format joined with nothing in between, then
  the Duration, Size, Resolution (width "x" height, the class in parentheses), Frame
  Rate (with " fps"), Video Codec and Bitrate (with " Mbps") lines in this order, then
  the footer line.
\<close>

theorem C8_report_layout:
  assumes "os_width os = 0"
  shows "\<exists>H M S. os_text (displayInfo v os) = os_text os
            @ ''\<newline>=== Video Information ===\<newline>''
            @ ''Filename: '' @ filename v @ format v @ ''\<newline>''
            @ ''Duration: '' @ H @ '':'' @ M @ '':'' @ S @ ''\<newline>''
            @ ''Size: '' @ formatSize (size v) @ ''\<newline>''
            @ ''Resolution: '' @ string_of_int (sint (width v)) @ ''x''
               @ string_of_int (sint (height v)) @ '' ('' @ getResolutionName v @ '')\<newline>''
            @ ''Frame Rate: '' @ format_double (os_floatfield os) (os_precision os) (frameRate v)
               @ '' fps\<newline>''
            @ ''Video Codec: '' @ videoCodec v @ ''\<newline>''
            @ ''Bitrate: '' @ format_fixed 2 (calculateBitrate v) @ '' Mbps\<newline>''
            @ ''=====================\<newline>''"
proof -
  let ?t = "sint (static_cast_int (duration v))"
  show ?thesis
    apply (rule exI [of _ "string_of_int (?t sdiv 3600)"])
    apply (rule exI [of _ "pad_left 2 (CHR ''0'') (string_of_int ((?t smod 3600) sdiv 60))"])
    apply (rule exI [of _ "pad_left 2 (CHR ''0'') (string_of_int (?t smod 60))"])
    apply (simp add: displayInfo_text [OF assms] report_head_def report_tail_def)
    done
qed

theorem C8_report_layout_witness:
  "os_text (displayInfo scenario cout_init) =
     ''\<newline>=== Video Information ===\<newline>Filename: movie.mp4\<newline>Duration: 1:01:01\<newline>Size: 100.000000 MB\<newline>Resolution: 1920x1080 (1080p)\<newline>Frame Rate: 29.97 fps\<newline>Video Codec: H.264\<newline>Bitrate: 0.23 Mbps\<newline>=====================\<newline>''"
proof -
  have a: "os_width cout_init = 0"
    by (simp add: cout_init_def)
  have c: "os_text (displayInfo scenario cout_init) =
     ''\<newline>=== Video Information ===\<newline>Filename: movie.mp4\<newline>Duration: 1:01:01\<newline>Size: 100.000000 MB\<newline>Resolution: 1920x1080 (1080p)\<newline>Frame Rate: 29.97 fps\<newline>Video Codec: H.264\<newline>Bitrate: 0.23 Mbps\<newline>=====================\<newline>''"
    by code_simp
  from C8_report_layout [OF a, of scenario] obtain H M S where
    "os_text (displayInfo scenario cout_init) = os_text cout_init
            @ ''\<newline>=== Video Information ===\<newline>''
            @ ''Filename: '' @ filename scenario @ format scenario @ ''\<newline>''
            @ ''Duration: '' @ H @ '':'' @ M @ '':'' @ S @ ''\<newline>''
            @ ''Size: '' @ formatSize (size scenario) @ ''\<newline>''
            @ ''Resolution: '' @ string_of_int (sint (width scenario)) @ ''x''
               @ string_of_int (sint (height scenario)) @ '' ('' @ getResolutionName scenario @ '')\<newline>''
            @ ''Frame Rate: '' @ format_double (os_floatfield cout_init) (os_precision cout_init) (frameRate scenario)
               @ '' fps\<newline>''
            @ ''Video Codec: '' @ videoCodec scenario @ ''\<newline>''
            @ ''Bitrate: '' @ format_fixed 2 (calculateBitrate scenario) @ '' Mbps\<newline>''
            @ ''=====================\<newline>''"
    by blast
  with c show ?thesis by simp
qed

text \<open>
  C3 (as amended). \<open>formatSize\<close> compares with the 1024-based thresholds GB = 1024 * 1024 * 1024,
  MB = 1024 * 1024 and KB = 1024 in this order with \<open>\<ge>\<close>, so it picks the largest unit whose
  threshold the value meets or exceeds, divides by it (exactly, for a non-negative
  \<^verbatim>\<open>double\<close>) and appends the unit label; below 1024 the unit is "bytes". The quotient
  is written by \<^verbatim>\<open>std::to_string\<close>, that is in fixed notation with exactly six
  decimals: 500 gives "500.000000 bytes", 2048 gives "2.000000 KB", 1048576 gives
  "1.000000 MB", 1073741824 gives "1.000000 GB", and exactly 1024 gives "1.000000 KB".
\<close>

theorem C3_formatSize_units:
  "KB = Finite False 1024 \<and> MB = Finite False (1024 * 1024)
   \<and> GB = Finite False (1024 * 1024 * 1024)
   \<and> formatSize x =
       (if dge x GB then to_string (ddiv x GB) @ '' GB''
        else if dge x MB then to_string (ddiv x MB) @ '' MB''
        else if dge x KB then to_string (ddiv x KB) @ '' KB''
        else to_string x @ '' bytes'')
   \<and> (is_double (Finite False m) \<longrightarrow>
        formatSize (Finite False m) =
          (if 1024 * 1024 * 1024 \<le> m
             then to_string (Finite False (m / (1024 * 1024 * 1024))) @ '' GB''
           else if 1024 * 1024 \<le> m
             then to_string (Finite False (m / (1024 * 1024))) @ '' MB''
           else if 1024 \<le> m
             then to_string (Finite False (m / 1024)) @ '' KB''
           else to_string (Finite False m) @ '' bytes''))
   \<and> to_string (Finite False m) =
        dec_digits (rne (m * 1000000) div 1000000) @ ''.''
          @ pad_left 6 (CHR ''0'') (dec_digits (rne (m * 1000000) mod 1000000))
   \<and> length (pad_left 6 (CHR ''0'') (dec_digits (rne (m * 1000000) mod 1000000))) = 6
   \<and> formatSize (Finite False 500) = ''500.000000 bytes''
   \<and> formatSize (Finite False 2048) = ''2.000000 KB''
   \<and> formatSize (Finite False 1048576) = ''1.000000 MB''
   \<and> formatSize (Finite False 1073741824) = ''1.000000 GB''
   \<and> formatSize (Finite False 1024) = ''1.000000 KB''"
proof -
  have a: "KB = Finite False 1024 \<and> MB = Finite False (1024 * 1024)
             \<and> GB = Finite False (1024 * 1024 * 1024)"
    by (simp add: KB_value MB_value GB_value)
  have b: "is_double (Finite False m) \<longrightarrow>
        formatSize (Finite False m) =
          (if 1024 * 1024 * 1024 \<le> m
             then to_string (Finite False (m / (1024 * 1024 * 1024))) @ '' GB''
           else if 1024 * 1024 \<le> m
             then to_string (Finite False (m / (1024 * 1024))) @ '' MB''
           else if 1024 \<le> m
             then to_string (Finite False (m / 1024)) @ '' KB''
           else to_string (Finite False m) @ '' bytes'')"
    using formatSize_finite [of m] by simp
  have c: "to_string (Finite False m) =
        dec_digits (rne (m * 1000000) div 1000000) @ ''.''
          @ pad_left 6 (CHR ''0'') (dec_digits (rne (m * 1000000) mod 1000000))"
    using to_string_finite(1) [of False m] by (simp add: sign_text_def)
  show ?thesis
    using a b c to_string_finite(2) [of m] formatSize_vectors
    by (simp only: formatSize_def simp_thms)
qed

theorem C3_formatSize_units_witness:
  "is_double (Finite False 102400000)
   \<and> formatSize (Finite False 102400000) = ''97.656250 MB''"
proof -
  have a: "is_double (Finite False 102400000)"
    by code_simp
  have b: "to_string (Finite False (3125 / 32)) = ''97.656250''"
    by code_simp
  note imp = C3_formatSize_units [of "Finite False 0" 102400000, THEN conjunct2,
      THEN conjunct2, THEN conjunct2, THEN conjunct2, THEN conjunct1]
  from imp a
  have "formatSize (Finite False 102400000) = to_string (Finite False (3125 / 32)) @ '' MB''"
    by simp
  with a b show ?thesis by simp
qed

text \<open>
  C3 (as stated) fails on its vectors: 500 bytes are not written "500 bytes" (nor 2048
  "2 KB"), because \<^verbatim>\<open>std::to_string\<close> always writes six decimals.
\<close>

theorem C3_vector_500_counterexample:
  "formatSize (Finite False 500) \<noteq> ''500 bytes''
   \<and> formatSize (Finite False 2048) \<noteq> ''2 KB''"
proof -
  have "formatSize (Finite False 500) = ''500.000000 bytes''"
    and "formatSize (Finite False 2048) = ''2.000000 KB''"
    by code_simp+
  then show ?thesis by simp
qed

text \<open>
  C2 (as amended). \<open>calculateBitrate\<close> is \<open>(size * 8) / (duration * 1000000)\<close> in
  \<^verbatim>\<open>double\<close> arithmetic, a function of the size and the duration alone; for a size and
  a duration between \<open>2\<^sup>-\<^sup>5\<^sup>0\<^sup>0\<close> and \<open>2\<^sup>5\<^sup>0\<^sup>0\<close> the result is finite and within a
  relative error of \<open>2\<^sup>-\<^sup>5\<^sup>1\<close> of the exact quotient (exact up to floating-point
  rounding; no decimal rounding inside). The report shows this value in fixed notation
  with two decimals, rounded to the nearest hundredth: the digits shown are at most
  \<open>1/200\<close> away from the value.
\<close>

theorem C2_bitrate:
  "calculateBitrate v =
     ddiv (dmul (size v) (double_of_int 8)) (dmul (duration v) (double_of_int 1000000))
   \<and> (size v = size v' \<and> duration v = duration v'
        \<longrightarrow> calculateBitrate v = calculateBitrate v')
   \<and> (size v = Finite False s \<and> duration v = Finite False d
        \<and> 2 powi (- 500) \<le> s \<and> s \<le> 2 ^ 500 \<and> 2 powi (- 500) \<le> d \<and> d \<le> 2 ^ 500
        \<longrightarrow> (\<exists>r. calculateBitrate v = Finite False r
                 \<and> \<bar>r - s * 8 / (d * 1000000)\<bar> \<le> s * 8 / (d * 1000000) / 2 ^ 51))
   \<and> (os_width os = 0
        \<longrightarrow> (\<exists>pre. os_text (displayInfo v os) =
                       pre @ ''Bitrate: '' @ format_fixed 2 (calculateBitrate v)
                         @ '' Mbps\<newline>=====================\<newline>''))
   \<and> format_fixed 2 (Finite False r) =
        dec_digits (rne (r * 100) div 100) @ ''.'' @ two_digits (rne (r * 100) mod 100)
   \<and> \<bar>of_int (rne (r * 100)) / 100 - r\<bar> \<le> 1 / 200"
proof -
  have a: "size v = size v' \<and> duration v = duration v'
        \<longrightarrow> calculateBitrate v = calculateBitrate v'"
    by (simp add: calculateBitrate_def)
  have b: "size v = Finite False s \<and> duration v = Finite False d
        \<and> 2 powi (- 500) \<le> s \<and> s \<le> 2 ^ 500 \<and> 2 powi (- 500) \<le> d \<and> d \<le> 2 ^ 500
        \<longrightarrow> (\<exists>r. calculateBitrate v = Finite False r
                 \<and> \<bar>r - s * 8 / (d * 1000000)\<bar> \<le> s * 8 / (d * 1000000) / 2 ^ 51)"
  proof (intro impI, elim conjE)
    assume "size v = Finite False s" "duration v = Finite False d"
      "2 powi (- 500) \<le> s" "s \<le> 2 ^ 500" "2 powi (- 500) \<le> d" "d \<le> 2 ^ 500"
    then show "\<exists>r. calculateBitrate v = Finite False r
                 \<and> \<bar>r - s * 8 / (d * 1000000)\<bar> \<le> s * 8 / (d * 1000000) / 2 ^ 51"
      by (rule bitrate_accuracy)
  qed
  have c: "os_width os = 0
        \<longrightarrow> (\<exists>pre. os_text (displayInfo v os) =
                       pre @ ''Bitrate: '' @ format_fixed 2 (calculateBitrate v)
                         @ '' Mbps\<newline>=====================\<newline>'')"
  proof
    assume h: "os_width os = 0"
    then obtain t where
      "os_text (displayInfo v os) = t @ report_tail (os_floatfield os) (os_precision os) v"
      using displayInfo_text [of os v] by simp
    then have pre: "os_text (displayInfo v os) =
        (t @ ''Size: '' @ formatSize (size v) @ ''\<newline>''
           @ ''Resolution: '' @ string_of_int (sint (width v)) @ ''x''
           @ string_of_int (sint (height v)) @ '' ('' @ getResolutionName v @ '')\<newline>''
           @ ''Frame Rate: '' @ format_double (os_floatfield os) (os_precision os) (frameRate v)
           @ '' fps\<newline>'' @ ''Video Codec: '' @ videoCodec v @ ''\<newline>'')
        @ ''Bitrate: '' @ format_fixed 2 (calculateBitrate v)
        @ '' Mbps\<newline>=====================\<newline>''"
      by (simp add: report_tail_def)
    show "\<exists>pre. os_text (displayInfo v os) =
                       pre @ ''Bitrate: '' @ format_fixed 2 (calculateBitrate v)
                         @ '' Mbps\<newline>=====================\<newline>''"
      by (rule exI) (rule pre)
  qed
  have d: "format_fixed 2 (Finite False r) =
        dec_digits (rne (r * 100) div 100) @ ''.'' @ two_digits (rne (r * 100) mod 100)"
    using format_fixed_2 [of False r] by (simp add: sign_text_def)
  have e: "calculateBitrate v =
     ddiv (dmul (size v) (double_of_int 8)) (dmul (duration v) (double_of_int 1000000))"
    by (rule calculateBitrate_def)
  have f: "\<bar>of_int (rne (r * 100)) / 100 - r\<bar> \<le> 1 / 200"
    by (rule nearest_hundredth)
  show ?thesis
    apply (intro conjI)
         apply (rule e)
        apply (rule a)
       apply (rule b)
      apply (rule c)
     apply (rule d)
    apply (rule f)
    done
qed

theorem C2_bitrate_witness:
  "calculateBitrate scenario = Finite False (4127717220754675 / 18014398509481984)
   \<and> \<bar>4127717220754675 / 18014398509481984 - 104857600 * 8 / (3661 * 1000000) :: rat\<bar>
       \<le> 104857600 * 8 / (3661 * 1000000) / 2 ^ 51
   \<and> format_fixed 2 (calculateBitrate scenario) = ''0.23''"
proof -
  have h: "size scenario = Finite False 104857600 \<and> duration scenario = Finite False 3661
        \<and> 2 powi (- 500) \<le> (104857600 :: rat) \<and> (104857600 :: rat) \<le> 2 ^ 500
        \<and> 2 powi (- 500) \<le> (3661 :: rat) \<and> (3661 :: rat) \<le> 2 ^ 500"
    by (simp add: scenario_def power_int_minus field_simps)
  note imp = C2_bitrate [of scenario scenario 104857600 3661 cout_init 0,
      THEN conjunct2, THEN conjunct2, THEN conjunct1]
  from imp h obtain r where r: "calculateBitrate scenario = Finite False r"
    "\<bar>r - 104857600 * 8 / (3661 * 1000000)\<bar> \<le> 104857600 * 8 / (3661 * 1000000) / 2 ^ 51"
    by blast
  from r(1) have "r = 4127717220754675 / 18014398509481984"
    by (simp add: bitrate_scenario)
  moreover have "format_fixed 2 (Finite False (4127717220754675 / 18014398509481984)) = ''0.23''"
    by code_simp
  ultimately show ?thesis using r(2) by (simp only: bitrate_scenario simp_thms)
qed

text \<open>
  C2 (as stated) fails on the specification's own scenario (104857600 bytes in 3661
  seconds): the value returned is not the exact quotient, and the report shows "0.23",
  which is the value rounded to two decimals, where cutting it off gives "0.22".
\<close>

theorem C2_truncation_counterexample:
  "calculateBitrate scenario \<noteq> Finite False (104857600 * 8 / (3661 * 1000000))
   \<and> format_fixed 2 (calculateBitrate scenario) \<noteq> truncated_2dp (calculateBitrate scenario)
   \<and> format_fixed 2 (calculateBitrate scenario) = ''0.23''
   \<and> truncated_2dp (calculateBitrate scenario) = ''0.22''"
proof -
  have a: "format_fixed 2 (Finite False (4127717220754675 / 18014398509481984)) = ''0.23''"
    by code_simp
  have b: "truncated_2dp (Finite False (4127717220754675 / 18014398509481984)) = ''0.22''"
    by code_simp
  show ?thesis
    unfolding bitrate_scenario a b by simp
qed

text \<open>
  C6. For a run whose input collection ends: when the format read is not one of the four
  supported literals, the run ends with status 1, standard error holds "Error: " with the
  exception's message and a line end, and standard output holds what the collector wrote
  and nothing more; when the format is supported, the run ends with status 0, the report
  appended to standard output and nothing on standard error. The report is the one of
  \<open>displayInfo\<close>, whose duration line is \<open>hms\<close> of the whole seconds when these are below
  \<open>2\<^sup>3\<^sup>1\<close>. What the collector wrote is the banner and the prompts with their retry
  messages only.
\<close>

theorem C6_exit_status:
  assumes "collect (cin_init stdin) cout_init
             = Some ((name, dur, sz, fmt, w, h, fps, codec), cin, cout)"
  defines "V \<equiv> \<lparr> filename = name, duration = dur, size = sz, format = fmt,
                 width = w, height = h, frameRate = fps, videoCodec = codec,
                 supportedFormats = default_supportedFormats \<rparr>"
  shows "(fmt \<notin> {''.mp4'', ''.mkv'', ''.avi'', ''.mov''} \<longrightarrow>
            main stdin = Some (1, cout,
              ''Error: Unsupported video format. Supported formats: mp4, mkv, avi, mov\<newline>''))
    \<and> (fmt \<in> {''.mp4'', ''.mkv'', ''.avi'', ''.mov''} \<longrightarrow>
            main stdin = Some (0, displayInfo V cout, [])
            \<and> (\<exists>H M S. os_text (displayInfo V cout) = os_text cout @ report_head V
                   @ ''Duration: '' @ H @ '':'' @ M @ '':'' @ S @ ''\<newline>''
                   @ report_tail Float_default 6 V))
    \<and> (\<exists>m. dur = Finite False m \<and> 0 < m
          \<and> (fmt \<in> {''.mp4'', ''.mkv'', ''.avi'', ''.mov''} \<and> \<lfloor>m\<rfloor> < 2 ^ 31 \<longrightarrow>
               (\<exists>cout'. main stdin = Some (0, cout', [])
                  \<and> os_text cout' = os_text cout @ report_head V
                       @ ''Duration: '' @ hms \<lfloor>m\<rfloor> @ ''\<newline>''
                       @ report_tail Float_default 6 V)))
    \<and> (\<exists>k1 k2 k3 k4 k5. os_text cout = prompts k1 k2 k3 k4 k5)"
proof -
  note m = main_of_collect [OF assms(1), folded V_def]
  note f = collect_cout_flags [OF assms(1)]
  from collect_positive [OF assms(1)] obtain d where d: "dur = Finite False d" "0 < d"
    by blast
  have a: "fmt \<notin> {''.mp4'', ''.mkv'', ''.avi'', ''.mov''} \<longrightarrow>
            main stdin = Some (1, cout,
              ''Error: Unsupported video format. Supported formats: mp4, mkv, avi, mov\<newline>'')"
    unfolding m by simp
  have t: "\<exists>H M S. os_text (displayInfo V cout) = os_text cout @ report_head V
                   @ ''Duration: '' @ H @ '':'' @ M @ '':'' @ S @ ''\<newline>''
                   @ report_tail Float_default 6 V"
    unfolding displayInfo_text [OF f(1)] f(2,3) by auto
  have b: "fmt \<in> {''.mp4'', ''.mkv'', ''.avi'', ''.mov''} \<longrightarrow>
            main stdin = Some (0, displayInfo V cout, [])
            \<and> (\<exists>H M S. os_text (displayInfo V cout) = os_text cout @ report_head V
                   @ ''Duration: '' @ H @ '':'' @ M @ '':'' @ S @ ''\<newline>''
                   @ report_tail Float_default 6 V)"
  proof
    assume "fmt \<in> {''.mp4'', ''.mkv'', ''.avi'', ''.mov''}"
    then have "main stdin = Some (0, displayInfo V cout, [])"
      unfolding m by simp
    with t show "main stdin = Some (0, displayInfo V cout, [])
            \<and> (\<exists>H M S. os_text (displayInfo V cout) = os_text cout @ report_head V
                   @ ''Duration: '' @ H @ '':'' @ M @ '':'' @ S @ ''\<newline>''
                   @ report_tail Float_default 6 V)"
      by (rule conjI [rotated])
  qed
  have c: "fmt \<in> {''.mp4'', ''.mkv'', ''.avi'', ''.mov''} \<and> \<lfloor>d\<rfloor> < 2 ^ 31 \<longrightarrow>
               (\<exists>cout'. main stdin = Some (0, cout', [])
                  \<and> os_text cout' = os_text cout @ report_head V
                       @ ''Duration: '' @ hms \<lfloor>d\<rfloor> @ ''\<newline>''
                       @ report_tail Float_default 6 V)"
  proof (intro impI, elim conjE)
    assume s: "fmt \<in> {''.mp4'', ''.mkv'', ''.avi'', ''.mov''}" and r: "\<lfloor>d\<rfloor> < 2 ^ 31"
    have dv: "duration V = Finite False d" by (simp add: V_def d(1))
    have d0: "0 \<le> d" using d(2) by simp
    note di = displayInfo_hms [OF f(1) dv d0 r, unfolded f(2,3)]
    show "\<exists>cout'. main stdin = Some (0, cout', [])
                  \<and> os_text cout' = os_text cout @ report_head V
                       @ ''Duration: '' @ hms \<lfloor>d\<rfloor> @ ''\<newline>''
                       @ report_tail Float_default 6 V"
      unfolding m di using s by simp
  qed
  from d c have e: "\<exists>m. dur = Finite False m \<and> 0 < m
          \<and> (fmt \<in> {''.mp4'', ''.mkv'', ''.avi'', ''.mov''} \<and> \<lfloor>m\<rfloor> < 2 ^ 31 \<longrightarrow>
               (\<exists>cout'. main stdin = Some (0, cout', [])
                  \<and> os_text cout' = os_text cout @ report_head V
                       @ ''Duration: '' @ hms \<lfloor>m\<rfloor> @ ''\<newline>''
                       @ report_tail Float_default 6 V))"
    by (intro exI [of _ d] conjI)
  show ?thesis
    apply (intro conjI)
       apply (rule a)
      apply (rule b)
     apply (rule e)
    apply (rule f(4))
    done
qed

theorem C6_exit_status_witness:
  "main ''movie\<newline>.wmv\<newline>3661\<newline>104857600\<newline>1920\<newline>1080\<newline>29.97\<newline>H.264\<newline>''
     = Some (1,
         \<lparr>os_text = ''Enter video information:\<newline>Filename (without extension): Format (e.g., .mp4, .mkv): Duration (in seconds): Size (in bytes): Width (pixels): Height (pixels): Frame Rate (fps): Video Codec (e.g., H.264, H.265): '',
            os_fill = CHR '' '', os_width = 0, os_precision = 6, os_floatfield = Float_default\<rparr>,
         ''Error: Unsupported video format. Supported formats: mp4, mkv, avi, mov\<newline>'')
   \<and> main ''movie\<newline>.mp4\<newline>3661\<newline>104857600\<newline>1920\<newline>1080\<newline>29.97\<newline>H.264\<newline>''
     = Some (0,
         \<lparr>os_text = ''Enter video information:\<newline>Filename (without extension): Format (e.g., .mp4, .mkv): Duration (in seconds): Size (in bytes): Width (pixels): Height (pixels): Frame Rate (fps): Video Codec (e.g., H.264, H.265): \<newline>=== Video Information ===\<newline>Filename: movie.mp4\<newline>Duration: 1:01:01\<newline>Size: 100.000000 MB\<newline>Resolution: 1920x1080 (1080p)\<newline>Frame Rate: 29.97 fps\<newline>Video Codec: H.264\<newline>Bitrate: 0.23 Mbps\<newline>=====================\<newline>'',
            os_fill = CHR ''0'', os_width = 0, os_precision = 2, os_floatfield = Float_fixed\<rparr>,
         [])
   \<and> main ''movie\<newline>.mp4\<newline>3000000000\<newline>104857600\<newline>1920\<newline>1080\<newline>29.97\<newline>H.264\<newline>''
     = Some (0,
         \<lparr>os_text = ''Enter video information:\<newline>Filename (without extension): Format (e.g., .mp4, .mkv): Duration (in seconds): Size (in bytes): Width (pixels): Height (pixels): Frame Rate (fps): Video Codec (e.g., H.264, H.265): \<newline>=== Video Information ===\<newline>Filename: movie.mp4\<newline>Duration: -596523:-14:-8\<newline>Size: 100.000000 MB\<newline>Resolution: 1920x1080 (1080p)\<newline>Frame Rate: 29.97 fps\<newline>Video Codec: H.264\<newline>Bitrate: 0.00 Mbps\<newline>=====================\<newline>'',
            os_fill = CHR ''0'', os_width = 0, os_precision = 2, os_floatfield = Float_fixed\<rparr>,
         [])"
proof -
  let ?prompts = "\<lparr>os_text = ''Enter video information:\<newline>Filename (without extension): Format (e.g., .mp4, .mkv): Duration (in seconds): Size (in bytes): Width (pixels): Height (pixels): Frame Rate (fps): Video Codec (e.g., H.264, H.265): '',
            os_fill = CHR '' '', os_width = 0, os_precision = 6, os_floatfield = Float_default\<rparr>"
  have c1: "collect (cin_init ''movie\<newline>.wmv\<newline>3661\<newline>104857600\<newline>1920\<newline>1080\<newline>29.97\<newline>H.264\<newline>'') cout_init
      = Some ((''movie'', Finite False 3661, Finite False 104857600, ''.wmv'', 1920, 1080,
               Finite False (1054475631502295 / 35184372088832), ''H.264''),
              \<lparr>is_buf = [], is_eof = False, is_fail = False\<rparr>, ?prompts)"
    by code_simp
  note c2 = collect_scenario
  have c3: "collect (cin_init ''movie\<newline>.mp4\<newline>3000000000\<newline>104857600\<newline>1920\<newline>1080\<newline>29.97\<newline>H.264\<newline>'') cout_init
      = Some ((''movie'', Finite False 3000000000, Finite False 104857600, ''.mp4'', 1920, 1080,
               Finite False (1054475631502295 / 35184372088832), ''H.264''),
              \<lparr>is_buf = [], is_eof = False, is_fail = False\<rparr>, ?prompts)"
    by code_simp
  have d2: "displayInfo \<lparr> filename = ''movie'', duration = Finite False 3661,
                 size = Finite False 104857600, format = ''.mp4'',
                 width = 1920, height = 1080,
                 frameRate = Finite False (1054475631502295 / 35184372088832),
                 videoCodec = ''H.264'', supportedFormats = default_supportedFormats \<rparr> ?prompts
      = \<lparr>os_text = ''Enter video information:\<newline>Filename (without extension): Format (e.g., .mp4, .mkv): Duration (in seconds): Size (in bytes): Width (pixels): Height (pixels): Frame Rate (fps): Video Codec (e.g., H.264, H.265): \<newline>=== Video Information ===\<newline>Filename: movie.mp4\<newline>Duration: 1:01:01\<newline>Size: 100.000000 MB\<newline>Resolution: 1920x1080 (1080p)\<newline>Frame Rate: 29.97 fps\<newline>Video Codec: H.264\<newline>Bitrate: 0.23 Mbps\<newline>=====================\<newline>'',
            os_fill = CHR ''0'', os_width = 0, os_precision = 2, os_floatfield = Float_fixed\<rparr>"
    by code_simp
  have d3: "displayInfo \<lparr> filename = ''movie'', duration = Finite False 3000000000,
                 size = Finite False 104857600, format = ''.mp4'',
                 width = 1920, height = 1080,
                 frameRate = Finite False (1054475631502295 / 35184372088832),
                 videoCodec = ''H.264'', supportedFormats = default_supportedFormats \<rparr> ?prompts
      = \<lparr>os_text = ''Enter video information:\<newline>Filename (without extension): Format (e.g., .mp4, .mkv): Duration (in seconds): Size (in bytes): Width (pixels): Height (pixels): Frame Rate (fps): Video Codec (e.g., H.264, H.265): \<newline>=== Video Information ===\<newline>Filename: movie.mp4\<newline>Duration: -596523:-14:-8\<newline>Size: 100.000000 MB\<newline>Resolution: 1920x1080 (1080p)\<newline>Frame Rate: 29.97 fps\<newline>Video Codec: H.264\<newline>Bitrate: 0.00 Mbps\<newline>=====================\<newline>'',
            os_fill = CHR ''0'', os_width = 0, os_precision = 2, os_floatfield = Float_fixed\<rparr>"
    by code_simp
  have w1: "main ''movie\<newline>.wmv\<newline>3661\<newline>104857600\<newline>1920\<newline>1080\<newline>29.97\<newline>H.264\<newline>''
     = Some (1, ?prompts,
         ''Error: Unsupported video format. Supported formats: mp4, mkv, avi, mov\<newline>'')"
    by (rule C6_exit_status [OF c1, THEN conjunct1, THEN mp]) simp
  have w2: "main ''movie\<newline>.mp4\<newline>3661\<newline>104857600\<newline>1920\<newline>1080\<newline>29.97\<newline>H.264\<newline>''
     = Some (0, displayInfo \<lparr> filename = ''movie'', duration = Finite False 3661,
                 size = Finite False 104857600, format = ''.mp4'',
                 width = 1920, height = 1080,
                 frameRate = Finite False (1054475631502295 / 35184372088832),
                 videoCodec = ''H.264'', supportedFormats = default_supportedFormats \<rparr> ?prompts, [])"
    by (rule C6_exit_status [OF c2, THEN conjunct2, THEN conjunct1, THEN mp, THEN conjunct1]) simp
  have w3: "main ''movie\<newline>.mp4\<newline>3000000000\<newline>104857600\<newline>1920\<newline>1080\<newline>29.97\<newline>H.264\<newline>''
     = Some (0, displayInfo \<lparr> filename = ''movie'', duration = Finite False 3000000000,
                 size = Finite False 104857600, format = ''.mp4'',
                 width = 1920, height = 1080,
                 frameRate = Finite False (1054475631502295 / 35184372088832),
                 videoCodec = ''H.264'', supportedFormats = default_supportedFormats \<rparr> ?prompts, [])"
    by (rule C6_exit_status [OF c3, THEN conjunct2, THEN conjunct1, THEN mp, THEN conjunct1]) simp
  show ?thesis
    unfolding w1 w2 w3 d2 d3 by simp
qed

text \<open>
  C7 (as amended). The retry loop of a numeric field, for any extraction operator: a
  successful extraction of an acceptable value ends the loop at once; a failed
  extraction or a refused value writes the field's retry message, clears the stream
  state and discards input through the next line boundary, but at most 10000
  characters of it, and tries again. So the loop ends only with a successfully extracted,
  accepted value, after writing its message once per refusal, and the collector returns
  only finite, strictly positive durations, sizes and frame rates and strictly positive
  widths and heights, having written nothing but the prompts and those messages.
\<close>

theorem C7_retry_loop:
  "(ext cin = (Some x, cin') \<and> \<not> nonpos x \<longrightarrow>
      read_positive ext nonpos msg (cin, cout) = Some (x, cin', cout))
   \<and> (ext cin = (None, cin') \<or> ext cin = (Some x, cin') \<and> nonpos x \<longrightarrow>
      read_positive ext nonpos msg (cin, cout)
        = read_positive ext nonpos msg
            (ignore 10000 (Some (CHR ''\<newline>'')) (clear cin'), put msg cout))
   \<and> (is_buf cin' = l @ CHR ''\<newline>'' # rest \<and> CHR ''\<newline>'' \<notin> set l \<and> length l < 10000 \<longrightarrow>
      ignore 10000 (Some (CHR ''\<newline>'')) (clear cin')
        = \<lparr> is_buf = rest, is_eof = False, is_fail = False \<rparr>)
   \<and> (is_buf cin' = l @ rest \<and> CHR ''\<newline>'' \<notin> set l \<and> length l = 10000 \<longrightarrow>
      ignore 10000 (Some (CHR ''\<newline>'')) (clear cin')
        = \<lparr> is_buf = rest, is_eof = False, is_fail = False \<rparr>)
   \<and> (read_positive ext nonpos msg (cin, cout) = Some (x, cin', cout') \<longrightarrow>
      \<not> nonpos x \<and> (\<exists>c. ext c = (Some x, cin')) \<and> (\<exists>k. cout' = (put msg ^^ k) cout))
   \<and> (collect cin0 cout0 = Some ((name, dur, sz, fmt, w, h, fps, codec), cin1, cout1) \<longrightarrow>
      (\<exists>m. dur = Finite False m \<and> 0 < m) \<and> (\<exists>m. sz = Finite False m \<and> 0 < m)
      \<and> 0 < sint w \<and> 0 < sint h \<and> (\<exists>m. fps = Finite False m \<and> 0 < m))
   \<and> (collect cin0 cout0 = Some ((name, dur, sz, fmt, w, h, fps, codec), cin1, cout1)
        \<and> os_width cout0 = 0 \<longrightarrow>
      (\<exists>k1 k2 k3 k4 k5. os_text cout1 = os_text cout0 @ prompts k1 k2 k3 k4 k5))"
proof -
  have a: "ext cin = (Some x, cin') \<and> \<not> nonpos x \<longrightarrow>
      read_positive ext nonpos msg (cin, cout) = Some (x, cin', cout)"
    by (simp add: read_positive_accept)
  have b: "ext cin = (None, cin') \<or> ext cin = (Some x, cin') \<and> nonpos x \<longrightarrow>
      read_positive ext nonpos msg (cin, cout)
        = read_positive ext nonpos msg
            (ignore 10000 (Some (CHR ''\<newline>'')) (clear cin'), put msg cout)"
    using read_positive_retry_fail [of ext cin cin' nonpos msg cout]
      read_positive_retry_nonpos [of ext cin x cin' nonpos msg cout] by blast
  have c: "is_buf cin' = l @ CHR ''\<newline>'' # rest \<and> CHR ''\<newline>'' \<notin> set l \<and> length l < 10000 \<longrightarrow>
      ignore 10000 (Some (CHR ''\<newline>'')) (clear cin')
        = \<lparr> is_buf = rest, is_eof = False, is_fail = False \<rparr>"
    using ignore_line [of cin' l rest] by blast
  have d: "is_buf cin' = l @ rest \<and> CHR ''\<newline>'' \<notin> set l \<and> length l = 10000 \<longrightarrow>
      ignore 10000 (Some (CHR ''\<newline>'')) (clear cin')
        = \<lparr> is_buf = rest, is_eof = False, is_fail = False \<rparr>"
    using ignore_limit [of cin' l rest] by blast
  have e: "read_positive ext nonpos msg (cin, cout) = Some (x, cin', cout') \<longrightarrow>
      \<not> nonpos x \<and> (\<exists>c. ext c = (Some x, cin')) \<and> (\<exists>k. cout' = (put msg ^^ k) cout)"
    using read_positive_result [of ext nonpos msg "(cin, cout)" "(x, cin', cout')"] by simp
  have f: "collect cin0 cout0 = Some ((name, dur, sz, fmt, w, h, fps, codec), cin1, cout1) \<longrightarrow>
      (\<exists>m. dur = Finite False m \<and> 0 < m) \<and> (\<exists>m. sz = Finite False m \<and> 0 < m)
      \<and> 0 < sint w \<and> 0 < sint h \<and> (\<exists>m. fps = Finite False m \<and> 0 < m)"
    by (rule impI) (rule collect_positive)
  have g: "collect cin0 cout0 = Some ((name, dur, sz, fmt, w, h, fps, codec), cin1, cout1)
        \<and> os_width cout0 = 0 \<longrightarrow>
      (\<exists>k1 k2 k3 k4 k5. os_text cout1 = os_text cout0 @ prompts k1 k2 k3 k4 k5)"
  proof (intro impI, elim conjE)
    assume h: "collect cin0 cout0 = Some ((name, dur, sz, fmt, w, h, fps, codec), cin1, cout1)"
      "os_width cout0 = 0"
    from collect_output [OF h] obtain k1 k2 k3 k4 k5 where
      "cout1 = cout0\<lparr>os_text := os_text cout0 @ prompts k1 k2 k3 k4 k5\<rparr>" by blast
    then have "os_text cout1 = os_text cout0 @ prompts k1 k2 k3 k4 k5" by simp
    then show "\<exists>k1 k2 k3 k4 k5. os_text cout1 = os_text cout0 @ prompts k1 k2 k3 k4 k5"
      by blast
  qed
  show ?thesis
    apply (intro conjI)
          apply (rule a)
         apply (rule b)
        apply (rule c)
       apply (rule d)
      apply (rule e)
     apply (rule f)
    apply (rule g)
    done
qed

theorem C7_retry_loop_witness:
  "read_positive (extraction num_get_double) double_nonpos ''Please enter a valid duration: ''
     (cin_init ''abc\<newline>42\<newline>'', cout_init)
     = Some (Finite False 42, \<lparr> is_buf = ''\<newline>'', is_eof = False, is_fail = False \<rparr>,
             put ''Please enter a valid duration: '' cout_init)
   \<and> os_text (put ''Please enter a valid duration: '' cout_init)
       = ''Please enter a valid duration: ''"
proof -
  let ?msg = "''Please enter a valid duration: ''"
  let ?c1 = "\<lparr> is_buf = ''abc\<newline>42\<newline>'', is_eof = False, is_fail = True \<rparr>"
  let ?c2 = "\<lparr> is_buf = ''42\<newline>'', is_eof = False, is_fail = False \<rparr>"
  let ?c3 = "\<lparr> is_buf = ''\<newline>'', is_eof = False, is_fail = False \<rparr>"
  have e1: "extraction num_get_double (cin_init ''abc\<newline>42\<newline>'') = (None, ?c1)"
    by code_simp
  have e2: "extraction num_get_double ?c2 = (Some (Finite False 42), ?c3)"
    by code_simp
  have p: "\<not> double_nonpos (Finite False 42)"
    by (simp add: double_pos signed_def)
  have i1: "ignore 10000 (Some (CHR ''\<newline>'')) (clear ?c1) = ?c2"
    by (rule C7_retry_loop [where cin' = ?c1 and l = "''abc''" and rest = "''42\<newline>''",
          THEN conjunct2, THEN conjunct2, THEN conjunct1, THEN mp]) simp
  have s1: "read_positive (extraction num_get_double) double_nonpos ?msg
              (cin_init ''abc\<newline>42\<newline>'', cout_init)
          = read_positive (extraction num_get_double) double_nonpos ?msg
              (ignore 10000 (Some (CHR ''\<newline>'')) (clear ?c1), put ?msg cout_init)"
    by (rule C7_retry_loop [where ext = "extraction num_get_double" and cin' = ?c1,
          THEN conjunct2, THEN conjunct1, THEN mp]) (simp add: e1)
  have s2: "read_positive (extraction num_get_double) double_nonpos ?msg
              (?c2, put ?msg cout_init)
          = Some (Finite False 42, ?c3, put ?msg cout_init)"
    by (rule C7_retry_loop [where ext = "extraction num_get_double" and cin' = ?c3,
          THEN conjunct1, THEN mp]) (simp add: e2 p)
  have t: "os_text (put ?msg cout_init) = ?msg"
    by (simp add: put_def cout_init_def)
  show ?thesis
    unfolding s1 i1 s2 t by simp
qed

text \<open>
  C7 (as stated) fails on a long line. On the line of 10000 question marks followed by
  \<^verbatim>\<open>5\<close>, the refused input is not discarded up to the line boundary (that would leave
  nothing): the loop stops discarding after 10000 characters and accepts the \<^verbatim>\<open>5\<close>
  that ends the same line.
\<close>

theorem C7_long_line_counterexample:
  "read_positive (extraction num_get_double) double_nonpos ''Please enter a valid duration: ''
     (cin_init (replicate 10000 (CHR ''?'') @ ''5\<newline>''), cout_init)
     = Some (Finite False 5, \<lparr> is_buf = ''\<newline>'', is_eof = False, is_fail = False \<rparr>,
             put ''Please enter a valid duration: '' cout_init)
   \<and> is_buf (ignore 10000 (Some (CHR ''\<newline>''))
        (clear (snd (extraction num_get_double
                  (cin_init (replicate 10000 (CHR ''?'') @ ''5\<newline>''))))))
       = ''5\<newline>''
   \<and> rest_of_line_discarded (replicate 10000 (CHR ''?'') @ ''5\<newline>'') = []"
proof -
  let ?msg = "''Please enter a valid duration: ''"
  let ?l = "replicate 10000 (CHR ''?'')"
  let ?cin = "cin_init (?l @ ''5\<newline>'')"
  let ?c2 = "\<lparr> is_buf = ''5\<newline>'', is_eof = False, is_fail = False \<rparr>"
  have "replicate (Suc 9999) (CHR ''?'') = CHR ''?'' # replicate 9999 (CHR ''?'')"
    by (rule replicate_Suc)
  then have hd: "?l @ ''5\<newline>'' = CHR ''?'' # (replicate 9999 (CHR ''?'') @ ''5\<newline>'')"
    by simp
  have e1: "extraction num_get_double ?cin = (None, ?cin\<lparr> is_fail := True \<rparr>)"
  proof (rule extraction_reject)
    show "good ?cin" by (simp add: good_def cin_init_def)
    show "is_buf ?cin = CHR ''?'' # (replicate 9999 (CHR ''?'') @ ''5\<newline>'')"
      using hd by (simp add: cin_init_def)
  qed (simp_all add: isspace_def is_digit_def)
  have i1: "ignore 10000 (Some (CHR ''\<newline>'')) (clear (?cin\<lparr> is_fail := True \<rparr>)) = ?c2"
    by (rule ignore_limit [where l = ?l]) (simp_all add: cin_init_def)
  have s1: "read_positive (extraction num_get_double) double_nonpos ?msg (?cin, cout_init)
      = read_positive (extraction num_get_double) double_nonpos ?msg (?c2, put ?msg cout_init)"
    using read_positive_retry_fail [of "extraction num_get_double" ?cin
        "?cin\<lparr> is_fail := True \<rparr>" double_nonpos ?msg cout_init, OF e1]
    unfolding i1 .
  have s2: "read_positive (extraction num_get_double) double_nonpos ?msg (?c2, put ?msg cout_init)
      = Some (Finite False 5, \<lparr> is_buf = ''\<newline>'', is_eof = False, is_fail = False \<rparr>,
              put ?msg cout_init)"
    by (rule read_positive_accept [where ext = "extraction num_get_double"
          and nonpos = double_nonpos, OF extraction_5 not_nonpos_5])
  have "dropWhile (\<lambda>c. c \<noteq> CHR ''\<newline>'') (?l @ ''5\<newline>'')
          = dropWhile (\<lambda>c. c \<noteq> CHR ''\<newline>'') ''5\<newline>''"
    by (rule dropWhile_append2) simp
  then have r: "rest_of_line_discarded (?l @ ''5\<newline>'') = []"
    by (simp add: rest_of_line_discarded_def)
  show ?thesis
    unfolding s1 s2 e1 snd_conv i1 r by simp
qed

end
